theory Spec2Isabelle
  imports Complex_Main "HOL-Library.Sublist" "HOL-Library.Multiset" "HOL-Library.AList"
begin

section \<open>Python strings\<close>

text \<open>
  A Python \<open>str\<close> is modelled as a \<open>string\<close> whose characters are the code points
  below 256. On these, \<open>str.lower\<close> moves \<open>A\<close>..\<open>Z\<close> and the Latin-1 capitals
  (\<open>0xC0\<close>..\<open>0xDE\<close> without the multiplication sign \<open>0xD7\<close>) up by 32 and leaves every
  other character alone.
\<close>

definition lower_char :: "char \<Rightarrow> char" where
  "lower_char c =
     (let n = (of_char c :: nat)
      in if (65 \<le> n \<and> n \<le> 90) \<or> (192 \<le> n \<and> n \<le> 222 \<and> n \<noteq> 215)
         then char_of (n + 32) else c)"

definition lower :: "string \<Rightarrow> string" where
  "lower s = map lower_char s"

text \<open>\<open>w in s\<close> on strings: \<open>w\<close> occurs in \<open>s\<close> as a contiguous block.\<close>

fun str_in :: "string \<Rightarrow> string \<Rightarrow> bool" where
  "str_in w [] = (w = [])"
| "str_in w (c # cs) = (prefix w (c # cs) \<or> str_in w cs)"

text \<open>\<open>s.startswith(w)\<close>.\<close>

definition startswith :: "string \<Rightarrow> string \<Rightarrow> bool" where
  "startswith s w = prefix w s"

text \<open>\<open>any(word in s for word in words)\<close>.\<close>

definition any_in :: "string list \<Rightarrow> string \<Rightarrow> bool" where
  "any_in words s = list_ex (\<lambda>word. str_in word s) words"

section \<open>The regular expressions of the router\<close>

text \<open>
  The four patterns of the router are built from literals, alternation, concatenation,
  capture groups and a repetition of one character class (\<open>.*\<close>, \<open>.*?\<close>, \<open>\d+\<close>, \<open>\s*\<close>).
  That fragment is embedded with the backtracking semantics of Python's \<open>re\<close>: a matcher
  returns every way of matching at the start of the input, most preferred first, each as
  the unread rest of the input with the groups captured so far (the latest capture first).
\<close>

datatype cclass = Dot | Digit | Space

fun in_class :: "cclass \<Rightarrow> char \<Rightarrow> bool" where
  "in_class Dot c = (c \<noteq> CHR 0x0A)"
| "in_class Digit c = (let n = (of_char c :: nat) in 48 \<le> n \<and> n \<le> 57)"
| "in_class Space c =
     (let n = (of_char c :: nat)
      in (9 \<le> n \<and> n \<le> 13) \<or> (28 \<le> n \<and> n \<le> 32) \<or> n = 133 \<or> n = 160)"

datatype regex =
    Lit string
  | Star cclass
  | LazyStar cclass
  | Plus cclass
  | Alt regex regex
  | Seq regex regex
  | Group nat regex

type_synonym groups = "(nat \<times> string) list"

definition run :: "cclass \<Rightarrow> string \<Rightarrow> nat" where
  "run k s = length (takeWhile (in_class k) s)"

fun rmatch :: "regex \<Rightarrow> string \<Rightarrow> groups \<Rightarrow> (string \<times> groups) list" where
  "rmatch (Lit w) s g = (if prefix w s then [(drop (length w) s, g)] else [])"
| "rmatch (Star k) s g = map (\<lambda>n. (drop n s, g)) (rev [0 ..< Suc (run k s)])"
| "rmatch (LazyStar k) s g = map (\<lambda>n. (drop n s, g)) [0 ..< Suc (run k s)]"
| "rmatch (Plus k) s g = map (\<lambda>n. (drop n s, g)) (rev [1 ..< Suc (run k s)])"
| "rmatch (Alt a b) s g = rmatch a s g @ rmatch b s g"
| "rmatch (Seq a b) s g = concat (map (\<lambda>(s', g'). rmatch b s' g') (rmatch a s g))"
| "rmatch (Group i a) s g =
     map (\<lambda>(s', g'). (s', (i, take (length s - length s') s) # g')) (rmatch a s g)"

text \<open>
  \<open>re.search\<close>: the most preferred match at the leftmost position that has one; the
  result is the groups of that match (group 0 is not needed by the router).
\<close>

fun re_search :: "regex \<Rightarrow> string \<Rightarrow> groups option" where
  "re_search r [] = (case rmatch r [] [] of [] \<Rightarrow> None | m # _ \<Rightarrow> Some (snd m))"
| "re_search r (c # cs) =
     (case rmatch r (c # cs) [] of [] \<Rightarrow> re_search r cs | m # _ \<Rightarrow> Some (snd m))"

text \<open>\<open>match.group(i)\<close>: the text group \<open>i\<close> captured last, \<open>None\<close> when it took no part.\<close>

definition group :: "groups \<Rightarrow> nat \<Rightarrow> string option" where
  "group m i = map_of m i"

fun alts :: "string list \<Rightarrow> regex" where
  "alts [] = Lit []"
| "alts [w] = Lit w"
| "alts (w # ws) = Alt (Lit w) (alts ws)"

section \<open>The query router (src/router.py)\<close>

datatype QueryType =
    FORECAST_DEMAND
  | INVENTORY_NEEDS
  | RAW_MATERIALS
  | BUSINESS_ADVICE
  | SUPPLIER_INFO
  | GENERAL_QUESTION

text \<open>The keyword tables and the product list of \<open>QueryRouter.__init__\<close>, in their order.\<close>

definition ml_keywords :: "(string \<times> string list) list" where
  "ml_keywords =
    [(''forecast'', [''forecast'', ''predict'', ''prediction'', ''expect'', ''anticipated'']),
     (''demand'', [''demand'', ''need'', ''sales'', ''sell'', ''sold'']),
     (''inventory'', [''inventory'', ''stock'', ''produce'', ''production'', ''make'', ''bake'']),
     (''materials'', [''material'', ''ingredient'', ''flour'', ''eggs'', ''butter'', ''sugar'']),
     (''quantity'', [''how many'', ''how much'', ''quantity'', ''amount'']),
     (''time'', [''today'', ''tomorrow'', ''next week'', ''this week'', ''next'', ''week'', ''day''])]"

definition llm_keywords :: "(string \<times> string list) list" where
  "llm_keywords =
    [(''supplier'', [''supplier'', ''buy'', ''purchase'', ''vendor'', ''where'', ''cheap'', ''price'']),
     (''advice'', [''should i'', ''recommend'', ''suggest'', ''advice'', ''tips'', ''help'', ''how to'']),
     (''quality'', [''quality'', ''fresh'', ''store'', ''storage'', ''shelf life'']),
     (''recipe'', [''recipe'', ''substitute'', ''alternative'', ''replace''])]"

definition products :: "string list" where
  "products =
    [''croissant'', ''baguette'', ''sourdough'', ''sandwich'',
     ''donut'', ''muffin'', ''cinnamon roll'', ''cinnamon_roll'']"

text \<open>
  The two counting loops of \<open>classify_query\<close>: every keyword of every category that
  occurs in the query adds one.
\<close>

definition keyword_score :: "(string \<times> string list) list \<Rightarrow> string \<Rightarrow> nat" where
  "keyword_score table query_lower =
     fold (\<lambda>(category, keywords) score.
             fold (\<lambda>keyword sc. if str_in keyword query_lower then sc + 1 else sc)
               keywords score)
       table 0"

text \<open>\<open>how (many|much).*?(croissant|baguette|sourdough|sandwich|donut|muffin)\<close>\<close>

definition pattern1 :: regex where
  "pattern1 =
     Seq (Lit ''how '')
       (Seq (Group 1 (alts [''many'', ''much'']))
         (Seq (LazyStar Dot)
           (Group 2 (alts [''croissant'', ''baguette'', ''sourdough'', ''sandwich'',
                           ''donut'', ''muffin'']))))"

text \<open>\<open>what.*(do|should).*(we|i).*need\<close>\<close>

definition pattern2 :: regex where
  "pattern2 =
     Seq (Lit ''what'')
       (Seq (Star Dot)
         (Seq (Group 1 (alts [''do'', ''should'']))
           (Seq (Star Dot)
             (Seq (Group 2 (alts [''we'', ''i'']))
               (Seq (Star Dot) (Lit ''need''))))))"

text \<open>\<open>where.*(buy|find|purchase|get)\<close>\<close>

definition pattern4 :: regex where
  "pattern4 =
     Seq (Lit ''where'')
       (Seq (Star Dot) (Group 1 (alts [''buy'', ''find'', ''purchase'', ''get''])))"

text \<open>\<open>(\d+)\s*(day|week|month)\<close>\<close>

definition time_pattern :: regex where
  "time_pattern =
     Seq (Group 1 (Plus Digit))
       (Seq (Star Space) (Group 2 (alts [''day'', ''week'', ''month''])))"

definition classify_query :: "string \<Rightarrow> QueryType \<times> rat" where
  "classify_query query =
     (let query_lower = lower query;
          ml_score = keyword_score ml_keywords query_lower;
          llm_score = keyword_score llm_keywords query_lower
      in if re_search pattern1 query_lower \<noteq> None then (FORECAST_DEMAND, 9 / 10)
         else if re_search pattern2 query_lower \<noteq> None then
           (if any_in [''ingredient'', ''material'', ''flour'', ''eggs''] query_lower
            then (RAW_MATERIALS, 85 / 100)
            else (INVENTORY_NEEDS, 85 / 100))
         else if any_in [''production'', ''inventory'', ''stock''] query_lower
           then (INVENTORY_NEEDS, 8 / 10)
         else if re_search pattern4 query_lower \<noteq> None then (SUPPLIER_INFO, 9 / 10)
         else if startswith query_lower ''should i'' \<or> str_in ''recommend'' query_lower
           then (BUSINESS_ADVICE, 85 / 100)
         else if ml_score > llm_score then (FORECAST_DEMAND, 6 / 10)
         else if llm_score > ml_score then (BUSINESS_ADVICE, 6 / 10)
         else (GENERAL_QUESTION, 5 / 10))"

text \<open>
  \<open>str.title\<close> on the product names, which are ASCII: a letter is capitalised when the
  character before it is not a letter and lower-cased otherwise.
\<close>

definition is_ascii_letter :: "char \<Rightarrow> bool" where
  "is_ascii_letter c =
     (let n = (of_char c :: nat) in (65 \<le> n \<and> n \<le> 90) \<or> (97 \<le> n \<and> n \<le> 122))"

definition upper_ascii :: "char \<Rightarrow> char" where
  "upper_ascii c =
     (let n = (of_char c :: nat) in if 97 \<le> n \<and> n \<le> 122 then char_of (n - 32) else c)"

fun title_from :: "bool \<Rightarrow> string \<Rightarrow> string" where
  "title_from previous_is_cased [] = []"
| "title_from previous_is_cased (c # cs) =
     (if is_ascii_letter c
      then (if previous_is_cased then lower_char c else upper_ascii c) # title_from True cs
      else c # title_from False cs)"

definition title :: "string \<Rightarrow> string" where
  "title s = title_from False s"

text \<open>\<open>s.replace(old, new)\<close> for single characters.\<close>

definition replace_char :: "char \<Rightarrow> char \<Rightarrow> string \<Rightarrow> string" where
  "replace_char old new s = map (\<lambda>c. if c = old then new else c) s"

definition normalize_product :: "string \<Rightarrow> string" where
  "normalize_product product =
     replace_char (CHR ''_'') (CHR ''_'') (title (replace_char (CHR '' '') (CHR ''_'') product))"

fun first_product :: "string list \<Rightarrow> string \<Rightarrow> string option" where
  "first_product [] query_lower = None"
| "first_product (product # rest) query_lower =
     (if str_in product query_lower then Some (normalize_product product)
      else first_product rest query_lower)"

definition extract_product :: "string \<Rightarrow> string option" where
  "extract_product query = first_product products (lower query)"

text \<open>
  \<open>int(s)\<close> on a string of decimal digits. CPython from 3.11 on (and the security
  releases of 3.7 to 3.10) refuses a string of more than \<open>max_str_digits\<close> digits with a
  \<open>ValueError\<close>; the limit is 4300 unless configured (to 0 or to at least 640), and 0
  switches the check off, which is also the behaviour of the older interpreters. The limit
  is a parameter of the model.
\<close>

datatype error = ValueError | KeyError | TypeError

definition digit_val :: "char \<Rightarrow> nat" where
  "digit_val c = (of_char c :: nat) - 48"

definition digits_value :: "string \<Rightarrow> nat" where
  "digits_value ds = foldl (\<lambda>acc c. 10 * acc + digit_val c) 0 ds"

definition int_of_digits :: "nat \<Rightarrow> string \<Rightarrow> error + nat" where
  "int_of_digits max_str_digits ds =
     (if 0 < max_str_digits \<and> max_str_digits < length ds then Inl ValueError
      else Inr (digits_value ds))"

text \<open>
  \<open>match.group(i)\<close> is \<open>None\<close> for a group that took no part in the match; \<open>int(None)\<close>
  raises \<open>TypeError\<close>, and a unit that is none of the three words falls through to the
  default.
\<close>

definition period_of_match :: "nat \<Rightarrow> groups \<Rightarrow> error + nat" where
  "period_of_match max_str_digits m =
     (case group m 1 of
        None \<Rightarrow> Inl TypeError
      | Some ds \<Rightarrow>
          (case int_of_digits max_str_digits ds of
             Inl e \<Rightarrow> Inl e
           | Inr num \<Rightarrow>
               (let unit = group m 2
                in if unit = Some ''day'' then Inr num
                   else if unit = Some ''week'' then Inr (num * 7)
                   else if unit = Some ''month'' then Inr (num * 30)
                   else Inr 7)))"

definition extract_time_period :: "nat \<Rightarrow> string \<Rightarrow> error + nat" where
  "extract_time_period max_str_digits query =
     (let query_lower = lower query
      in if str_in ''today'' query_lower then Inr 1
         else if str_in ''tomorrow'' query_lower then Inr 1
         else if str_in ''next week'' query_lower \<or> str_in ''this week'' query_lower then Inr 7
         else if str_in ''next month'' query_lower then Inr 30
         else (case re_search time_pattern query_lower of
                 None \<Rightarrow> Inr 7
               | Some m \<Rightarrow> period_of_match max_str_digits m))"

record RoutingDecision =
  query_type :: QueryType
  confidence :: rat
  product :: "string option"
  time_period :: nat
  use_ml :: bool
  use_llm :: bool
  original_query :: string

definition route :: "nat \<Rightarrow> string \<Rightarrow> error + RoutingDecision" where
  "route max_str_digits query =
     (case classify_query query of (qt, conf) \<Rightarrow>
        (let prod = extract_product query
         in case extract_time_period max_str_digits query of
              Inl e \<Rightarrow> Inl e
            | Inr tp \<Rightarrow>
                Inr \<lparr>query_type = qt, confidence = conf, product = prod, time_period = tp,
                     use_ml = List.member [FORECAST_DEMAND, INVENTORY_NEEDS, RAW_MATERIALS] qt,
                     use_llm = List.member [BUSINESS_ADVICE, SUPPLIER_INFO, GENERAL_QUESTION] qt,
                     original_query = query\<rparr>))"

section \<open>The forecaster (src/forecasting/model.py)\<close>

text \<open>
  The \<open>float64\<close> columns of the forecast are modelled as rationals (every finite float is
  one) with exact arithmetic, so the rounding of intermediate float results, infinities
  and \<open>NaN\<close> are outside the model; the \<open>int64\<close> columns are unbounded integers, and
  \<open>days_ahead\<close> is a natural number. A timestamp is only copied, never computed with.
\<close>

type_synonym date = int

record forecast_row =
  ds :: date
  yhat :: rat
  yhat_lower :: rat
  yhat_upper :: rat

record inventory_row =
  inv_ds :: date
  expected_demand :: int
  recommended_production :: int

text \<open>
  A fitted Prophet model is opaque: all that \<open>predict\<close> uses of it is the frame that
  \<open>model.predict(model.make_future_dataframe(periods=days_ahead))\<close> returns, here its rows
  in order with the four columns the code keeps. \<open>self.models\<close> is a dictionary, kept as an
  association list in insertion order.
\<close>

type_synonym prophet = "nat \<Rightarrow> forecast_row list"

record forecaster =
  models :: "(string \<times> prophet) list"
  trained :: bool

text \<open>\<open>frame.tail(n)\<close>: the last \<open>n\<close> rows, all of them when there are fewer.\<close>

definition tail :: "nat \<Rightarrow> 'a list \<Rightarrow> 'a list" where
  "tail n xs = drop (length xs - n) xs"

definition predict :: "forecaster \<Rightarrow> string \<Rightarrow> nat \<Rightarrow> error + forecast_row list" where
  "predict self product_name days_ahead =
     (if \<not> trained self then Inl ValueError
      else case map_of (models self) product_name of
             None \<Rightarrow> Inl ValueError
           | Some model \<Rightarrow>
               Inr (map (\<lambda>row. row\<lparr>yhat := max (yhat row) 0\<rparr>)
                      (tail days_ahead (model days_ahead))))"

text \<open>\<open>Series.round()\<close> followed by \<open>astype(int)\<close>: the nearest integer, a half to the even one.\<close>

definition rint :: "rat \<Rightarrow> int" where
  "rint x =
     (let f = \<lfloor>x\<rfloor>; d = x - of_int f
      in if d < 1 / 2 then f
         else if 1 / 2 < d then f + 1
         else if even f then f else f + 1)"

definition inventory_of :: "rat \<Rightarrow> forecast_row \<Rightarrow> inventory_row" where
  "inventory_of service_level row =
     (let uncertainty = yhat_upper row - yhat row
      in \<lparr>inv_ds = ds row,
          expected_demand = rint (yhat row),
          recommended_production = rint (yhat row + uncertainty * service_level)\<rparr>)"

definition calculate_inventory_needs ::
  "forecaster \<Rightarrow> string \<Rightarrow> nat \<Rightarrow> rat \<Rightarrow> error + inventory_row list" where
  "calculate_inventory_needs self product_name days_ahead service_level =
     (case predict self product_name days_ahead of
        Inl e \<Rightarrow> Inl e
      | Inr forecast \<Rightarrow> Inr (map (inventory_of service_level) forecast))"

type_synonym recipes = "(string \<times> (string \<times> rat) list) list"
type_synonym materials = "(string \<times> rat) list"

definition RECIPES :: recipes where
  "RECIPES =
    [(''Croissant'', [(''flour'', 12), (''butter'', 8), (''eggs'', 15)]),
     (''Baguette'', [(''flour'', 15), (''butter'', 0), (''eggs'', 0)]),
     (''Sourdough'', [(''flour'', 18), (''butter'', 2), (''eggs'', 0)]),
     (''Sandwich'', [(''flour'', 8), (''butter'', 3), (''eggs'', 10), (''meat'', 5),
                     (''vegetables'', 3)]),
     (''Donut'', [(''flour'', 10), (''butter'', 5), (''eggs'', 12), (''sugar'', 6)]),
     (''Muffin'', [(''flour'', 11), (''butter'', 4), (''eggs'', 10), (''sugar'', 5)]),
     (''Cinnamon_Roll'', [(''flour'', 12), (''butter'', 6), (''eggs'', 8), (''sugar'', 7)])]"

text \<open>\<open>materials.get(material, 0)\<close>\<close>

definition get_or :: "materials \<Rightarrow> string \<Rightarrow> rat \<Rightarrow> rat" where
  "get_or materials material dflt =
     (case map_of materials material of None \<Rightarrow> dflt | Some qty \<Rightarrow> qty)"

text \<open>
  The inner loop over \<open>RECIPES[product].items()\<close>. The dictionary \<open>materials\<close> keeps its
  insertion order: an assignment to a present key replaces the value in place, one to a
  new key appends, which is \<open>AList.update\<close>.
\<close>

fun add_recipe :: "int \<Rightarrow> (string \<times> rat) list \<Rightarrow> materials \<Rightarrow> materials" where
  "add_recipe total_production [] materials = materials"
| "add_recipe total_production ((material, qty_per_100) # rest) materials =
     (let needed = (of_int total_production / 100) * qty_per_100
      in add_recipe total_production rest
           (AList.update material (get_or materials material 0 + needed) materials))"

text \<open>The body of the outer loop once \<open>total_production\<close> is known.\<close>

definition add_product :: "recipes \<Rightarrow> string \<Rightarrow> int \<Rightarrow> materials \<Rightarrow> materials" where
  "add_product table product_name total_production materials =
     (case map_of table product_name of
        None \<Rightarrow> materials
      | Some recipe \<Rightarrow> add_recipe total_production recipe materials)"

text \<open>The outer loop over \<open>self.models.keys()\<close>; a failing forecast ends it.\<close>

fun materials_loop ::
  "recipes \<Rightarrow> forecaster \<Rightarrow> nat \<Rightarrow> string list \<Rightarrow> materials \<Rightarrow> error + materials" where
  "materials_loop table self days_ahead [] materials = Inr materials"
| "materials_loop table self days_ahead (product_name # rest) materials =
     (case calculate_inventory_needs self product_name days_ahead (95 / 100) of
        Inl e \<Rightarrow> Inl e
      | Inr inventory \<Rightarrow>
          (let total_production = sum_list (map recommended_production inventory)
           in materials_loop table self days_ahead rest
                (add_product table product_name total_production materials)))"

text \<open>\<open>round(qty, 2)\<close>\<close>

definition round2 :: "rat \<Rightarrow> rat" where
  "round2 qty = of_int (rint (qty * 100)) / 100"

text \<open>
  \<open>sort_values('quantity_kg', ascending=False)\<close>. The order the source gives to rows of
  equal quantity depends on the sorting routine of the numeric library; the model keeps
  them in their order, and nothing below depends on that choice.
\<close>

definition sort_values_desc :: "materials \<Rightarrow> materials" where
  "sort_values_desc rows = rev (sort_key snd (rev rows))"

text \<open>
  A frame built from no rows has no column \<open>quantity_kg\<close>, and sorting by it raises
  \<open>KeyError\<close>.
\<close>

definition materials_frame :: "materials \<Rightarrow> error + materials" where
  "materials_frame materials =
     (if materials = [] then Inl KeyError
      else Inr (sort_values_desc (map (\<lambda>(mat, qty). (mat, round2 qty)) materials)))"

text \<open>\<open>get_raw_materials\<close>, with the recipe table of the source as a parameter first.\<close>

definition raw_materials_with :: "recipes \<Rightarrow> forecaster \<Rightarrow> nat \<Rightarrow> error + materials" where
  "raw_materials_with table self days_ahead =
     (case materials_loop table self days_ahead (map fst (models self)) [] of
        Inl e \<Rightarrow> Inl e
      | Inr materials \<Rightarrow> materials_frame materials)"

definition get_raw_materials :: "forecaster \<Rightarrow> nat \<Rightarrow> error + materials" where
  "get_raw_materials self days_ahead = raw_materials_with RECIPES self days_ahead"

section \<open>Notions used to state the properties\<close>

text \<open>The language of a pattern: the strings it matches as a whole.\<close>

fun lang :: "regex \<Rightarrow> string set" where
  "lang (Lit w) = {w}"
| "lang (Star k) = {u. list_all (in_class k) u}"
| "lang (LazyStar k) = {u. list_all (in_class k) u}"
| "lang (Plus k) = {u. u \<noteq> [] \<and> list_all (in_class k) u}"
| "lang (Alt a b) = lang a \<union> lang b"
| "lang (Seq a b) = {u @ v | u v. u \<in> lang a \<and> v \<in> lang b}"
| "lang (Group i a) = lang a"

text \<open>
  \<open>number_phrase s dgs u\<close>: the digits \<open>dgs\<close>, optional white space and the unit \<open>u\<close>
  stand somewhere in \<open>s\<close>, one after the other.
\<close>

definition number_phrase :: "string \<Rightarrow> string \<Rightarrow> string \<Rightarrow> bool" where
  "number_phrase s dgs u \<longleftrightarrow>
     dgs \<noteq> [] \<and> list_all (in_class Digit) dgs \<and> u \<in> set [''day'', ''week'', ''month''] \<and>
     (\<exists>a ws t. list_all (in_class Space) ws \<and> s = a @ dgs @ ws @ u @ t)"

text \<open>
  \<open>phrase_at a s dgs u\<close>: such a phrase stands in \<open>s\<close> right after the prefix \<open>a\<close>.
  \<open>first_number_phrase s dgs u\<close>: it is the one that starts leftmost, which is the one
  \<open>re.search\<close> finds; its digits are then a whole run of digits.
\<close>

definition phrase_at :: "string \<Rightarrow> string \<Rightarrow> string \<Rightarrow> string \<Rightarrow> bool" where
  "phrase_at a s dgs u \<longleftrightarrow>
     dgs \<noteq> [] \<and> list_all (in_class Digit) dgs \<and> u \<in> set [''day'', ''week'', ''month''] \<and>
     (\<exists>ws t. list_all (in_class Space) ws \<and> s = a @ dgs @ ws @ u @ t)"

definition first_number_phrase :: "string \<Rightarrow> string \<Rightarrow> string \<Rightarrow> bool" where
  "first_number_phrase s dgs u \<longleftrightarrow>
     (\<exists>a. phrase_at a s dgs u \<and>
          (\<forall>a' dgs' u'. phrase_at a' s dgs' u' \<longrightarrow> length a \<le> length a'))"

definition unit_days :: "string \<Rightarrow> nat" where
  "unit_days u = (if u = ''day'' then 1 else if u = ''week'' then 7 else 30)"

text \<open>
  The totals that the outer loop of \<open>get_raw_materials\<close> computes, product by product in
  the order of the keys, and the accumulation of the materials from such totals.
\<close>

fun production_totals :: "forecaster \<Rightarrow> nat \<Rightarrow> string list \<Rightarrow> error + (string \<times> int) list" where
  "production_totals self days_ahead [] = Inr []"
| "production_totals self days_ahead (product_name # rest) =
     (case calculate_inventory_needs self product_name days_ahead (95 / 100) of
        Inl e \<Rightarrow> Inl e
      | Inr inventory \<Rightarrow>
          (case production_totals self days_ahead rest of
             Inl e \<Rightarrow> Inl e
           | Inr totals \<Rightarrow>
               Inr ((product_name, sum_list (map recommended_production inventory)) # totals)))"

definition aggregate_materials :: "recipes \<Rightarrow> (string \<times> int) list \<Rightarrow> materials" where
  "aggregate_materials table totals =
     fold (\<lambda>(product_name, total_production). add_product table product_name total_production)
       totals []"




text \<open>The total of one product, 0 when its forecast fails.\<close>

definition total_production :: "forecaster \<Rightarrow> nat \<Rightarrow> string \<Rightarrow> int" where
  "total_production self days_ahead product_name =
     (case calculate_inventory_needs self product_name days_ahead (95 / 100) of
        Inl e \<Rightarrow> 0
      | Inr inventory \<Rightarrow> sum_list (map recommended_production inventory))"

text \<open>
  A forecaster with three fitted models, one of them for a product without a recipe, to
  instantiate the statements below: each model returns one row of history and two of forecast.
\<close>

definition example_forecaster :: forecaster where
  "example_forecaster =
     \<lparr>models =
        [(''Croissant'', \<lambda>periods.
            [\<lparr>ds = 0, yhat = 55, yhat_lower = 50, yhat_upper = 61\<rparr>,
             \<lparr>ds = 1, yhat = 115 / 2, yhat_lower = 52, yhat_upper = 60\<rparr>,
             \<lparr>ds = 2, yhat = 36, yhat_lower = 30, yhat_upper = 40\<rparr>]),
         (''Bagel'', \<lambda>periods.
            [\<lparr>ds = 0, yhat = 9, yhat_lower = 7, yhat_upper = 11\<rparr>,
             \<lparr>ds = 1, yhat = - 3, yhat_lower = - 10, yhat_upper = 4\<rparr>,
             \<lparr>ds = 2, yhat = 12, yhat_lower = 8, yhat_upper = 15\<rparr>]),
         (''Donut'', \<lambda>periods.
            [\<lparr>ds = 0, yhat = 48, yhat_lower = 45, yhat_upper = 51\<rparr>,
             \<lparr>ds = 1, yhat = 99 / 2, yhat_lower = 47, yhat_upper = 101 / 2\<rparr>,
             \<lparr>ds = 2, yhat = 50, yhat_lower = 50, yhat_upper = 50\<rparr>])],
      trained = True\<rparr>"

text \<open>The fixed time phrases of \<open>extract_time_period\<close>, in the order it checks them.\<close>

definition names_day :: "string \<Rightarrow> bool" where
  "names_day s \<longleftrightarrow> str_in ''today'' s \<or> str_in ''tomorrow'' s"

definition names_week :: "string \<Rightarrow> bool" where
  "names_week s \<longleftrightarrow> str_in ''next week'' s \<or> str_in ''this week'' s"

definition names_month :: "string \<Rightarrow> bool" where
  "names_month s \<longleftrightarrow> str_in ''next month'' s"

section \<open>Substrings\<close>

lemma prefix_iff_append: "prefix w s \<longleftrightarrow> (\<exists>b. s = w @ b)"
  by (auto simp: prefix_def)

lemma str_in_iff: "str_in w s \<longleftrightarrow> (\<exists>a b. s = a @ w @ b)"
proof (induction s)
  case Nil
  then show ?case by auto
next
  case (Cons c cs)
  show ?case
  proof
    assume "str_in w (c # cs)"
    then consider "prefix w (c # cs)" | "str_in w cs" by auto
    then show "\<exists>a b. c # cs = a @ w @ b"
    proof cases
      case 1
      then obtain b where "c # cs = w @ b" by (auto simp: prefix_def)
      then have "c # cs = [] @ w @ b" by simp
      then show ?thesis by blast
    next
      case 2
      with Cons.IH obtain a b where "cs = a @ w @ b" by blast
      then have "c # cs = (c # a) @ w @ b" by simp
      then show ?thesis by blast
    qed
  next
    assume "\<exists>a b. c # cs = a @ w @ b"
    then obtain a b where ab: "c # cs = a @ w @ b" by blast
    show "str_in w (c # cs)"
    proof (cases a)
      case Nil
      with ab have "prefix w (c # cs)" by (simp add: prefix_def)
      then show ?thesis by simp
    next
      case (Cons x a')
      with ab have "cs = a' @ w @ b" by simp
      with Cons.IH have "str_in w cs" by blast
      then show ?thesis by simp
    qed
  qed
qed

section \<open>The matcher against the language of a pattern\<close>

lemma run_take: "n \<le> run k s \<Longrightarrow> list_all (in_class k) (take n s)"
proof -
  assume n: "n \<le> run k s"
  have "take n (takeWhile (in_class k) s @ dropWhile (in_class k) s) =
        take n (takeWhile (in_class k) s)"
    using n by (simp add: run_def del: takeWhile_dropWhile_id)
  then have "take n s = take n (takeWhile (in_class k) s)"
    by (simp only: takeWhile_dropWhile_id)
  then have "set (take n s) \<subseteq> set (takeWhile (in_class k) s)"
    by (metis set_take_subset)
  then show ?thesis
    by (auto simp: list_all_iff dest: set_takeWhileD)
qed

lemma run_append: "list_all (in_class k) u \<Longrightarrow> length u \<le> run k (u @ t)"
  by (simp add: run_def list_all_iff takeWhile_append2)

lemma class_rests:
  "(\<exists>n. lo \<le> n \<and> n \<le> run k s \<and> t = drop n s) \<longleftrightarrow>
   (\<exists>u. lo \<le> length u \<and> list_all (in_class k) u \<and> s = u @ t)"
proof
  assume "\<exists>n. lo \<le> n \<and> n \<le> run k s \<and> t = drop n s"
  then obtain n where n: "lo \<le> n" "n \<le> run k s" "t = drop n s" by blast
  have "n \<le> length s" using n(2) length_takeWhile_le [of "in_class k" s] by (simp add: run_def)
  then have "length (take n s) = n" by simp
  moreover have "s = take n s @ t" using n(3) by simp
  ultimately show "\<exists>u. lo \<le> length u \<and> list_all (in_class k) u \<and> s = u @ t"
    using n(1) run_take [OF n(2)] by metis
next
  assume "\<exists>u. lo \<le> length u \<and> list_all (in_class k) u \<and> s = u @ t"
  then obtain u where u: "lo \<le> length u" "list_all (in_class k) u" "s = u @ t" by blast
  have "length u \<le> run k s" using run_append [OF u(2)] u(3) by simp
  moreover have "t = drop (length u) s" using u(3) by simp
  ultimately show "\<exists>n. lo \<le> n \<and> n \<le> run k s \<and> t = drop n s" using u(1) by blast
qed

lemma set_upt_Suc: "set [lo ..< Suc m] = {n. lo \<le> n \<and> n \<le> m}"
  by auto

lemma rests_upt:
  "fst ` set (map (\<lambda>n. (drop n s, g)) [lo ..< Suc m]) = {t. \<exists>n. lo \<le> n \<and> n \<le> m \<and> t = drop n s}"
proof -
  have "fst ` set (map (\<lambda>n. (drop n s, g)) [lo ..< Suc m]) = (\<lambda>n. drop n s) ` set [lo ..< Suc m]"
    by (simp only: set_map image_image fst_conv)
  also have "\<dots> = {t. \<exists>n. lo \<le> n \<and> n \<le> m \<and> t = drop n s}"
    unfolding set_upt_Suc by blast
  finally show ?thesis .
qed

lemma rests_Star: "fst ` set (rmatch (Star k) s g) = {t. \<exists>u. list_all (in_class k) u \<and> s = u @ t}"
proof -
  have "fst ` set (rmatch (Star k) s g) = {t. \<exists>n. 0 \<le> n \<and> n \<le> run k s \<and> t = drop n s}"
    using rests_upt [of s g 0 "run k s"] by (simp only: rmatch.simps rev_map [symmetric] set_rev)
  also have "\<dots> = {t. \<exists>u. 0 \<le> length u \<and> list_all (in_class k) u \<and> s = u @ t}"
    using class_rests [of 0 k s] by simp
  finally show ?thesis by simp
qed

lemma rests_LazyStar: "fst ` set (rmatch (LazyStar k) s g) = {t. \<exists>u. list_all (in_class k) u \<and> s = u @ t}"
proof -
  have "fst ` set (rmatch (LazyStar k) s g) = {t. \<exists>n. 0 \<le> n \<and> n \<le> run k s \<and> t = drop n s}"
    using rests_upt [of s g 0 "run k s"] by (simp only: rmatch.simps rev_map [symmetric] set_rev)
  also have "\<dots> = {t. \<exists>u. 0 \<le> length u \<and> list_all (in_class k) u \<and> s = u @ t}"
    using class_rests [of 0 k s] by simp
  finally show ?thesis by simp
qed

lemma rests_Plus: "fst ` set (rmatch (Plus k) s g) = {t. \<exists>u. u \<noteq> [] \<and> list_all (in_class k) u \<and> s = u @ t}"
proof -
  have "fst ` set (rmatch (Plus k) s g) = {t. \<exists>n. 1 \<le> n \<and> n \<le> run k s \<and> t = drop n s}"
    using rests_upt [of s g 1 "run k s"] by (simp only: rmatch.simps rev_map [symmetric] set_rev)
  also have "\<dots> = {t. \<exists>u. 1 \<le> length u \<and> list_all (in_class k) u \<and> s = u @ t}"
    using class_rests [of 1 k s] by simp
  also have "\<dots> = {t. \<exists>u. u \<noteq> [] \<and> list_all (in_class k) u \<and> s = u @ t}"
    by (simp add: Suc_le_eq)
  finally show ?thesis .
qed

lemma rests_lang: "fst ` set (rmatch r s g) = {t. \<exists>u. u \<in> lang r \<and> s = u @ t}"
proof (induction r arbitrary: s g)
  case (Lit w)
  show ?case by (auto simp: prefix_def)
next
  case (Star k)
  show ?case by (simp add: rests_Star del: rmatch.simps)
next
  case (LazyStar k)
  show ?case by (simp add: rests_LazyStar del: rmatch.simps)
next
  case (Plus k)
  show ?case by (simp add: rests_Plus del: rmatch.simps)
next
  case (Alt a b)
  show ?case by (auto simp: image_Un Alt.IH)
next
  case (Seq a b)
  have "set (rmatch (Seq a b) s g) =
        (\<Union>p \<in> set (rmatch a s g). set (rmatch b (fst p) (snd p)))"
    by (simp add: case_prod_beta)
  then have "fst ` set (rmatch (Seq a b) s g) =
        (\<Union>p \<in> set (rmatch a s g). fst ` set (rmatch b (fst p) (snd p)))"
    by (simp only: image_UN)
  also have "\<dots> = (\<Union>p \<in> set (rmatch a s g). {t. \<exists>v. v \<in> lang b \<and> fst p = v @ t})"
    by (simp add: Seq.IH(2))
  also have "\<dots> = (\<Union>s' \<in> fst ` set (rmatch a s g). {t. \<exists>v. v \<in> lang b \<and> s' = v @ t})"
    by blast
  also have "\<dots> = (\<Union>s' \<in> {t. \<exists>u. u \<in> lang a \<and> s = u @ t}. {t. \<exists>v. v \<in> lang b \<and> s' = v @ t})"
    by (simp only: Seq.IH(1))
  also have "\<dots> = {t. \<exists>w. w \<in> lang (Seq a b) \<and> s = w @ t}"
    by auto blast+
  finally show ?case .
next
  case (Group i a)
  have "fst ` set (rmatch (Group i a) s g) = fst ` set (rmatch a s g)"
    by (force simp: image_iff split: prod.splits)
  then show ?case by (simp add: Group.IH)
qed

lemma rmatch_nonempty: "rmatch r s g \<noteq> [] \<longleftrightarrow> (\<exists>u t. u \<in> lang r \<and> s = u @ t)"
proof -
  have "rmatch r s g \<noteq> [] \<longleftrightarrow> fst ` set (rmatch r s g) \<noteq> {}" by simp
  also have "\<dots> \<longleftrightarrow> (\<exists>u t. u \<in> lang r \<and> s = u @ t)"
    unfolding rests_lang by blast
  finally show ?thesis .
qed

lemma re_search_iff: "re_search r s \<noteq> None \<longleftrightarrow> (\<exists>a u b. u \<in> lang r \<and> s = a @ u @ b)"
proof (induction s)
  case Nil
  have "re_search r [] \<noteq> None \<longleftrightarrow> rmatch r [] [] \<noteq> []" by (simp split: list.splits)
  then show ?case by (simp add: rmatch_nonempty)
next
  case (Cons c cs)
  have "re_search r (c # cs) \<noteq> None \<longleftrightarrow> rmatch r (c # cs) [] \<noteq> [] \<or> re_search r cs \<noteq> None"
    by (simp split: list.splits)
  also have "\<dots> \<longleftrightarrow> (\<exists>u t. u \<in> lang r \<and> c # cs = u @ t) \<or> (\<exists>a u b. u \<in> lang r \<and> cs = a @ u @ b)"
    by (simp only: rmatch_nonempty Cons.IH)
  also have "\<dots> \<longleftrightarrow> (\<exists>a u b. u \<in> lang r \<and> c # cs = a @ u @ b)"
  proof
    assume "(\<exists>u t. u \<in> lang r \<and> c # cs = u @ t) \<or> (\<exists>a u b. u \<in> lang r \<and> cs = a @ u @ b)"
    then show "\<exists>a u b. u \<in> lang r \<and> c # cs = a @ u @ b"
    proof
      assume "\<exists>u t. u \<in> lang r \<and> c # cs = u @ t"
      then obtain u t where "u \<in> lang r" "c # cs = [] @ u @ t" by auto
      then show ?thesis by blast
    next
      assume "\<exists>a u b. u \<in> lang r \<and> cs = a @ u @ b"
      then obtain a u b where "u \<in> lang r" "c # cs = (c # a) @ u @ b" by auto
      then show ?thesis by blast
    qed
  next
    assume "\<exists>a u b. u \<in> lang r \<and> c # cs = a @ u @ b"
    then obtain a u b where u: "u \<in> lang r" and e: "c # cs = a @ u @ b" by blast
    show "(\<exists>u t. u \<in> lang r \<and> c # cs = u @ t) \<or> (\<exists>a u b. u \<in> lang r \<and> cs = a @ u @ b)"
    proof (cases a)
      case Nil
      with u e show ?thesis by auto
    next
      case (Cons x a')
      with e have "cs = a' @ u @ b" by simp
      with u show ?thesis by blast
    qed
  qed
  finally show ?case .
qed

lemma mem_rmatch_Lit: "(t, g') \<in> set (rmatch (Lit w) s g) \<longleftrightarrow> g' = g \<and> s = w @ t"
  by (auto simp: prefix_def)

lemma mem_rmatch_upt:
  "(t, g') \<in> set (map (\<lambda>n. (drop n s, g)) [lo ..< Suc m]) \<longleftrightarrow>
   g' = g \<and> (\<exists>n. lo \<le> n \<and> n \<le> m \<and> t = drop n s)"
  unfolding set_map set_upt_Suc by blast

lemma mem_rmatch_Star:
  "(t, g') \<in> set (rmatch (Star k) s g) \<longleftrightarrow> g' = g \<and> (\<exists>u. list_all (in_class k) u \<and> s = u @ t)"
proof -
  have "(t, g') \<in> set (rmatch (Star k) s g) \<longleftrightarrow>
        g' = g \<and> (\<exists>n. 0 \<le> n \<and> n \<le> run k s \<and> t = drop n s)"
    using mem_rmatch_upt [of t g' s g 0 "run k s"]
    by (simp only: rmatch.simps rev_map [symmetric] set_rev)
  also have "\<dots> \<longleftrightarrow> g' = g \<and> (\<exists>u. 0 \<le> length u \<and> list_all (in_class k) u \<and> s = u @ t)"
    by (simp only: class_rests)
  finally show ?thesis by simp
qed

lemma mem_rmatch_LazyStar:
  "(t, g') \<in> set (rmatch (LazyStar k) s g) \<longleftrightarrow> g' = g \<and> (\<exists>u. list_all (in_class k) u \<and> s = u @ t)"
proof -
  have "(t, g') \<in> set (rmatch (LazyStar k) s g) \<longleftrightarrow>
        g' = g \<and> (\<exists>n. 0 \<le> n \<and> n \<le> run k s \<and> t = drop n s)"
    using mem_rmatch_upt [of t g' s g 0 "run k s"]
    by (simp only: rmatch.simps)
  also have "\<dots> \<longleftrightarrow> g' = g \<and> (\<exists>u. 0 \<le> length u \<and> list_all (in_class k) u \<and> s = u @ t)"
    by (simp only: class_rests)
  finally show ?thesis by simp
qed

lemma mem_rmatch_Plus:
  "(t, g') \<in> set (rmatch (Plus k) s g) \<longleftrightarrow>
   g' = g \<and> (\<exists>u. u \<noteq> [] \<and> list_all (in_class k) u \<and> s = u @ t)"
proof -
  have "(t, g') \<in> set (rmatch (Plus k) s g) \<longleftrightarrow>
        g' = g \<and> (\<exists>n. 1 \<le> n \<and> n \<le> run k s \<and> t = drop n s)"
    using mem_rmatch_upt [of t g' s g 1 "run k s"]
    by (simp only: rmatch.simps rev_map [symmetric] set_rev)
  also have "\<dots> \<longleftrightarrow> g' = g \<and> (\<exists>u. 1 \<le> length u \<and> list_all (in_class k) u \<and> s = u @ t)"
    by (simp only: class_rests)
  finally show ?thesis by (simp add: Suc_le_eq)
qed

lemma mem_rmatch_Alt:
  "(t, g') \<in> set (rmatch (Alt a b) s g) \<longleftrightarrow>
   (t, g') \<in> set (rmatch a s g) \<or> (t, g') \<in> set (rmatch b s g)"
  by simp

lemma mem_rmatch_Seq:
  "(t, g'') \<in> set (rmatch (Seq a b) s g) \<longleftrightarrow>
   (\<exists>s' g'. (s', g') \<in> set (rmatch a s g) \<and> (t, g'') \<in> set (rmatch b s' g'))"
proof -
  have "set (rmatch (Seq a b) s g) =
        (\<Union>p \<in> set (rmatch a s g). set (rmatch b (fst p) (snd p)))"
    by (simp add: case_prod_beta)
  then show ?thesis by force
qed

lemma mem_rmatch_Group:
  "(t, g'') \<in> set (rmatch (Group i a) s g) \<longleftrightarrow>
   (\<exists>g'. (t, g') \<in> set (rmatch a s g) \<and> g'' = (i, take (length s - length t) s) # g')"
proof -
  have "set (rmatch (Group i a) s g) =
        (\<lambda>p. (fst p, (i, take (length s - length (fst p)) s) # snd p)) ` set (rmatch a s g)"
    by (simp add: case_prod_beta)
  then have "(t, g'') \<in> set (rmatch (Group i a) s g) \<longleftrightarrow>
     (\<exists>p. p \<in> set (rmatch a s g) \<and> t = fst p \<and> g'' = (i, take (length s - length (fst p)) s) # snd p)"
    by (simp only: image_iff Bex_def prod.inject)
  also have "\<dots> \<longleftrightarrow> (\<exists>g'. (t, g') \<in> set (rmatch a s g) \<and> g'' = (i, take (length s - length t) s) # g')"
    by (simp only: split_paired_Ex fst_conv snd_conv) blast
  finally show ?thesis .
qed

lemma mem_rmatch_alts:
  "ws \<noteq> [] \<Longrightarrow>
   (t, g') \<in> set (rmatch (alts ws) s g) \<longleftrightarrow> g' = g \<and> (\<exists>w. w \<in> set ws \<and> s = w @ t)"
proof (induction ws rule: alts.induct)
  case 1
  then show ?case by simp
next
  case (2 w)
  show ?case by (simp only: alts.simps mem_rmatch_Lit) simp
next
  case (3 w v vs)
  have "(t, g') \<in> set (rmatch (alts (w # v # vs)) s g) \<longleftrightarrow>
        (t, g') \<in> set (rmatch (Lit w) s g) \<or> (t, g') \<in> set (rmatch (alts (v # vs)) s g)"
    by simp
  also have "\<dots> \<longleftrightarrow> (g' = g \<and> s = w @ t) \<or> (g' = g \<and> (\<exists>x. x \<in> set (v # vs) \<and> s = x @ t))"
    using 3 by (simp only: mem_rmatch_Lit) simp
  also have "\<dots> \<longleftrightarrow> g' = g \<and> (\<exists>x. x \<in> set (w # v # vs) \<and> s = x @ t)"
    by auto
  finally show ?case .
qed

lemma lang_alts: "ws \<noteq> [] \<Longrightarrow> lang (alts ws) = set ws"
  by (induction ws rule: alts.induct) auto

lemma re_search_Some:
  "re_search r s = Some g \<Longrightarrow> \<exists>a s' t. s = a @ s' \<and> (t, g) \<in> set (rmatch r s' [])"
proof (induction s)
  case Nil
  then obtain m ms where m: "rmatch r [] [] = m # ms" "g = snd m"
    by (auto split: list.splits)
  then have "m \<in> set (rmatch r [] [])" by simp
  then have "(fst m, g) \<in> set (rmatch r [] [])" using m(2) by simp
  moreover have "[] = [] @ ([]::string)" by simp
  ultimately show ?case by blast
next
  case step: (Cons c cs)
  show ?case
  proof (cases "rmatch r (c # cs) []")
    case Nil
    with step.prems have "re_search r cs = Some g" by simp
    with step.IH obtain a s' t where "cs = a @ s'" "(t, g) \<in> set (rmatch r s' [])" by blast
    then have "c # cs = (c # a) @ s'" "(t, g) \<in> set (rmatch r s' [])" by simp_all
    then show ?thesis by blast
  next
    case (Cons m ms)
    with step.prems have "g = snd m" by simp
    moreover have "m \<in> set (rmatch r (c # cs) [])" using Cons by simp
    ultimately have "(fst m, g) \<in> set (rmatch r (c # cs) [])" by simp
    moreover have "c # cs = [] @ (c # cs)" by simp
    ultimately show ?thesis by blast
  qed
qed

section \<open>Keyword scores and the patterns of the classifier\<close>

lemma fold_keywords:
  "fold (\<lambda>keyword sc. if str_in keyword q then sc + 1 else sc) kws (n::nat) =
   n + length (filter (\<lambda>k. str_in k q) kws)"
  by (induction kws arbitrary: n) auto

lemma fold_table:
  "fold (\<lambda>(category, keywords) score.
           fold (\<lambda>keyword sc. if str_in keyword q then sc + 1 else sc) keywords score)
     table (n::nat) =
   n + length (filter (\<lambda>k. str_in k q) (concat (map snd table)))"
  by (induction table arbitrary: n) (auto simp: fold_keywords)

lemma keyword_score_count:
  "keyword_score table q = length (filter (\<lambda>k. str_in k q) (concat (map snd table)))"
  unfolding keyword_score_def by (simp only: fold_table)

lemma keyword_score_zero:
  "keyword_score table q = 0 \<longleftrightarrow> (\<forall>k \<in> set (concat (map snd table)). \<not> str_in k q)"
  by (simp only: keyword_score_count length_0_conv filter_empty_conv)

lemma str_in_append: "str_in w (a @ w @ b)"
  unfolding str_in_iff by blast

lemma lang_pattern1:
  "lang pattern1 = {''how '' @ m @ b @ p | m b p. m \<in> set [''many'', ''much''] \<and>
      list_all (in_class Dot) b \<and>
      p \<in> set [''croissant'', ''baguette'', ''sourdough'', ''sandwich'', ''donut'', ''muffin'']}"
proof -
  have a1: "lang (alts [''many'', ''much'']) = set [''many'', ''much'']"
    by (rule lang_alts) simp
  have a2: "lang (alts [''croissant'', ''baguette'', ''sourdough'', ''sandwich'', ''donut'', ''muffin''])
     = set [''croissant'', ''baguette'', ''sourdough'', ''sandwich'', ''donut'', ''muffin'']"
    by (rule lang_alts) simp
  show ?thesis
    unfolding pattern1_def lang.simps a1 a2 by blast
qed

lemma search_pattern1:
  "re_search pattern1 s \<noteq> None \<longleftrightarrow>
   (\<exists>a m b p c. s = a @ ''how '' @ m @ b @ p @ c \<and> m \<in> set [''many'', ''much''] \<and>
      list_all (in_class Dot) b \<and>
      p \<in> set [''croissant'', ''baguette'', ''sourdough'', ''sandwich'', ''donut'', ''muffin''])"
  (is "?L \<longleftrightarrow> ?R")
proof
  assume ?L
  then obtain a u c where u: "u \<in> lang pattern1" and s: "s = a @ u @ c"
    unfolding re_search_iff by blast
  from u obtain m b p where "u = ''how '' @ m @ b @ p" "m \<in> set [''many'', ''much'']"
      "list_all (in_class Dot) b"
      "p \<in> set [''croissant'', ''baguette'', ''sourdough'', ''sandwich'', ''donut'', ''muffin'']"
    unfolding lang_pattern1 by blast
  with s have "s = a @ ''how '' @ m @ b @ p @ c \<and> m \<in> set [''many'', ''much''] \<and>
      list_all (in_class Dot) b \<and>
      p \<in> set [''croissant'', ''baguette'', ''sourdough'', ''sandwich'', ''donut'', ''muffin'']"
    by simp
  then show ?R by blast
next
  assume ?R
  then obtain a m b p c where s: "s = a @ ''how '' @ m @ b @ p @ c" and
      r: "m \<in> set [''many'', ''much'']" "list_all (in_class Dot) b"
      "p \<in> set [''croissant'', ''baguette'', ''sourdough'', ''sandwich'', ''donut'', ''muffin'']"
    by blast
  from r have "''how '' @ m @ b @ p \<in> lang pattern1"
    unfolding lang_pattern1 by blast
  moreover from s have "s = a @ (''how '' @ m @ b @ p) @ c" by simp
  ultimately show ?L unfolding re_search_iff by blast
qed

lemma lang_pattern2:
  "u \<in> lang pattern2 \<Longrightarrow> \<exists>v. u = v @ ''need''"
proof -
  assume "u \<in> lang pattern2"
  then obtain x1 x2 x3 x4 x5 x6 where "u = ''what'' @ x1 @ x2 @ x3 @ x4 @ x5 @ ''need''"
    unfolding pattern2_def lang.simps by blast
  then have "u = (''what'' @ x1 @ x2 @ x3 @ x4 @ x5) @ ''need''" by simp
  then show ?thesis by blast
qed

lemma search_pattern2_need: "re_search pattern2 s \<noteq> None \<Longrightarrow> str_in ''need'' s"
proof -
  assume "re_search pattern2 s \<noteq> None"
  then obtain a u c where u: "u \<in> lang pattern2" and s: "s = a @ u @ c"
    unfolding re_search_iff by blast
  from lang_pattern2 [OF u] obtain v where "u = v @ ''need''" by blast
  with s have "s = (a @ v) @ ''need'' @ c" by simp
  then show ?thesis unfolding str_in_iff by blast
qed

lemma search_pattern4_where: "re_search pattern4 s \<noteq> None \<Longrightarrow> str_in ''where'' s"
proof -
  assume "re_search pattern4 s \<noteq> None"
  then obtain a u c where u: "u \<in> lang pattern4" and s: "s = a @ u @ c"
    unfolding re_search_iff by blast
  from u obtain x1 x2 where "u = ''where'' @ x1 @ x2"
    unfolding pattern4_def lang.simps by blast
  with s have "s = a @ ''where'' @ (x1 @ x2 @ c)" by simp
  then show ?thesis unfolding str_in_iff by blast
qed

lemma search_pattern1_quantity:
  "re_search pattern1 s \<noteq> None \<Longrightarrow> str_in ''how many'' s \<or> str_in ''how much'' s"
proof -
  assume "re_search pattern1 s \<noteq> None"
  then obtain a m b p c where s: "s = a @ ''how '' @ m @ b @ p @ c" and
     m: "m \<in> set [''many'', ''much'']"
    unfolding search_pattern1 by blast
  from m consider "m = ''many''" | "m = ''much''" by auto
  then show ?thesis
  proof cases
    case 1
    with s have "s = a @ ''how many'' @ (b @ p @ c)" by simp
    then show ?thesis unfolding str_in_iff by blast
  next
    case 2
    with s have "s = a @ ''how much'' @ (b @ p @ c)" by simp
    then show ?thesis unfolding str_in_iff by blast
  qed
qed

lemma startswith_str_in: "startswith s w \<Longrightarrow> str_in w s"
proof -
  assume "startswith s w"
  then obtain b where "s = [] @ w @ b" by (auto simp: startswith_def prefix_def)
  then show ?thesis unfolding str_in_iff by blast
qed

lemma classify_no_rule:
  assumes "re_search pattern1 (lower q) = None" "re_search pattern2 (lower q) = None"
    "\<not> any_in [''production'', ''inventory'', ''stock''] (lower q)"
    "re_search pattern4 (lower q) = None"
    "\<not> startswith (lower q) ''should i''" "\<not> str_in ''recommend'' (lower q)"
  shows "classify_query q =
     (if keyword_score ml_keywords (lower q) > keyword_score llm_keywords (lower q)
        then (FORECAST_DEMAND, 6 / 10)
      else if keyword_score llm_keywords (lower q) > keyword_score ml_keywords (lower q)
        then (BUSINESS_ADVICE, 6 / 10)
      else (GENERAL_QUESTION, 5 / 10))"
  using assms by (simp add: classify_query_def Let_def)

lemma zero_scores_no_rule:
  assumes ml: "keyword_score ml_keywords s = 0" and llm: "keyword_score llm_keywords s = 0"
  shows "re_search pattern1 s = None \<and> re_search pattern2 s = None \<and>
    \<not> any_in [''production'', ''inventory'', ''stock''] s \<and> re_search pattern4 s = None \<and>
    \<not> startswith s ''should i'' \<and> \<not> str_in ''recommend'' s"
proof -
  have m: "\<not> str_in k s" if "k \<in> set [''how many'', ''how much'', ''need'', ''production'',
      ''inventory'', ''stock'']" for k
  proof -
    from that have "k \<in> set (concat (map snd ml_keywords))"
      by (auto simp: ml_keywords_def)
    with ml show ?thesis unfolding keyword_score_zero by blast
  qed
  have l: "\<not> str_in k s" if "k \<in> set [''where'', ''should i'', ''recommend'']" for k
  proof -
    from that have "k \<in> set (concat (map snd llm_keywords))"
      by (auto simp: llm_keywords_def)
    with llm show ?thesis unfolding keyword_score_zero by blast
  qed
  have n: "\<not> str_in ''how many'' s" "\<not> str_in ''how much'' s" "\<not> str_in ''need'' s"
    "\<not> str_in ''production'' s" "\<not> str_in ''inventory'' s" "\<not> str_in ''stock'' s"
    by (simp_all add: m)
  have k: "\<not> str_in ''where'' s" "\<not> str_in ''should i'' s" "\<not> str_in ''recommend'' s"
    by (simp_all add: l)
  have "re_search pattern1 s = None"
    using search_pattern1_quantity [of s] n by blast
  moreover have "re_search pattern2 s = None"
    using search_pattern2_need [of s] n by blast
  moreover have "\<not> any_in [''production'', ''inventory'', ''stock''] s"
    using n by (simp add: any_in_def)
  moreover have "re_search pattern4 s = None"
    using search_pattern4_where [of s] k by blast
  moreover have "\<not> startswith s ''should i''"
    using startswith_str_in [of s "''should i''"] k by blast
  moreover have "\<not> str_in ''recommend'' s"
    using k by simp
  ultimately show ?thesis by blast
qed

lemma list_all_Dot: "list_all (in_class Dot) b \<longleftrightarrow> CHR 0x0A \<notin> set b"
  by (auto simp: list_all_iff)

lemma classify_forecast_demand_high:
  "classify_query q = (FORECAST_DEMAND, 9 / 10) \<longleftrightarrow> re_search pattern1 (lower q) \<noteq> None"
  by (simp add: classify_query_def Let_def)

lemma forecast_demand_high_iff:
  "classify_query q = (FORECAST_DEMAND, 9 / 10) \<longleftrightarrow>
   (\<exists>a m b p c. lower q = a @ ''how '' @ m @ b @ p @ c \<and> m \<in> set [''many'', ''much''] \<and>
      CHR 0x0A \<notin> set b \<and>
      p \<in> set [''croissant'', ''baguette'', ''sourdough'', ''sandwich'', ''donut'', ''muffin''])"
  unfolding classify_forecast_demand_high search_pattern1 list_all_Dot ..

section \<open>The product loop\<close>

lemma first_product_None:
  "first_product ps ql = None \<longleftrightarrow> (\<forall>p \<in> set ps. \<not> str_in p ql)"
  by (induction ps) auto

lemma first_product_Some:
  "first_product ps ql = Some r \<Longrightarrow> \<exists>p \<in> set ps. r = normalize_product p"
  by (induction ps) (auto split: if_splits)

lemma first_product_index:
  "i < length ps \<Longrightarrow> str_in (ps ! i) ql \<Longrightarrow> (\<forall>j < i. \<not> str_in (ps ! j) ql) \<Longrightarrow>
   first_product ps ql = Some (normalize_product (ps ! i))"
proof (induction ps arbitrary: i)
  case Nil
  then show ?case by simp
next
  case (Cons p ps)
  show ?case
  proof (cases i)
    case 0
    with Cons.prems show ?thesis by simp
  next
    case (Suc k)
    with Cons.prems have "\<not> str_in p ql" by auto
    moreover from Suc Cons.prems have "k < length ps" "str_in (ps ! k) ql"
      "\<forall>j < k. \<not> str_in (ps ! j) ql" by auto
    ultimately show ?thesis using Cons.IH [of k] Suc by simp
  qed
qed

lemma normalize_product_names:
  "normalize_product ''croissant'' = ''Croissant''"
  "normalize_product ''baguette'' = ''Baguette''"
  "normalize_product ''sourdough'' = ''Sourdough''"
  "normalize_product ''sandwich'' = ''Sandwich''"
  "normalize_product ''donut'' = ''Donut''"
  "normalize_product ''muffin'' = ''Muffin''"
  "normalize_product ''cinnamon roll'' = ''Cinnamon_Roll''"
  "normalize_product ''cinnamon_roll'' = ''Cinnamon_Roll''"
  by code_simp+

lemma normalized_products:
  "map normalize_product products =
     [''Croissant'', ''Baguette'', ''Sourdough'', ''Sandwich'', ''Donut'', ''Muffin'',
      ''Cinnamon_Roll'', ''Cinnamon_Roll'']"
  unfolding products_def list.map normalize_product_names ..

section \<open>The time pattern\<close>

lemma time_match_shape:
  assumes "(t, g) \<in> set (rmatch time_pattern s [])"
  shows "\<exists>dgs ws u. s = dgs @ ws @ u @ t \<and> dgs \<noteq> [] \<and> list_all (in_class Digit) dgs \<and>
      list_all (in_class Space) ws \<and> u \<in> set [''day'', ''week'', ''month''] \<and>
      g = [(2, u), (1, dgs)]"
proof -
  from assms obtain s1 g1 where
    a: "(s1, g1) \<in> set (rmatch (Group 1 (Plus Digit)) s [])" and
    b: "(t, g) \<in> set (rmatch (Seq (Star Space) (Group 2 (alts [''day'', ''week'', ''month'']))) s1 g1)"
    unfolding time_pattern_def mem_rmatch_Seq [of t g "Group 1 (Plus Digit)"] by blast
  from a obtain dgs where
    d: "dgs \<noteq> []" "list_all (in_class Digit) dgs" "s = dgs @ s1" and
    g1: "g1 = [(1, take (length s - length s1) s)]"
    unfolding mem_rmatch_Group mem_rmatch_Plus by blast
  from d(3) g1 have g1': "g1 = [(1, dgs)]" by simp
  from b obtain s2 g2 where
    c: "(s2, g2) \<in> set (rmatch (Star Space) s1 g1)" and
    e: "(t, g) \<in> set (rmatch (Group 2 (alts [''day'', ''week'', ''month''])) s2 g2)"
    unfolding mem_rmatch_Seq [of t g "Star Space"] by blast
  from c obtain ws where w: "list_all (in_class Space) ws" "s1 = ws @ s2" and g2: "g2 = g1"
    unfolding mem_rmatch_Star by blast
  from e obtain g3 where
    f: "(t, g3) \<in> set (rmatch (alts [''day'', ''week'', ''month'']) s2 g2)" and
    g: "g = (2, take (length s2 - length t) s2) # g3"
    unfolding mem_rmatch_Group by blast
  have ne: "[''day'', ''week'', ''month''] \<noteq> []" by simp
  from f obtain u where u: "u \<in> set [''day'', ''week'', ''month'']" "s2 = u @ t" and g3: "g3 = g2"
    unfolding mem_rmatch_alts [OF ne] by blast
  from u(2) g g3 g2 g1' have "g = [(2, u), (1, dgs)]" by simp
  moreover from d(3) w(2) u(2) have "s = dgs @ ws @ u @ t" by simp
  ultimately show ?thesis using d(1,2) w(1) u(1) by blast
qed

lemma lang_time_pattern:
  "lang time_pattern = {dgs @ ws @ u | dgs ws u. dgs \<noteq> [] \<and> list_all (in_class Digit) dgs \<and>
      list_all (in_class Space) ws \<and> u \<in> set [''day'', ''week'', ''month'']}"
proof -
  have a: "lang (alts [''day'', ''week'', ''month'']) = set [''day'', ''week'', ''month'']"
    by (rule lang_alts) simp
  show ?thesis
    unfolding time_pattern_def lang.simps a by blast
qed

lemma search_time_pattern:
  "re_search time_pattern s \<noteq> None \<longleftrightarrow> (\<exists>dgs u. number_phrase s dgs u)"
  (is "?L \<longleftrightarrow> ?R")
proof
  assume ?L
  then obtain a v c where v: "v \<in> lang time_pattern" and s: "s = a @ v @ c"
    unfolding re_search_iff by blast
  from v obtain dgs ws u where "v = dgs @ ws @ u" "dgs \<noteq> []" "list_all (in_class Digit) dgs"
      "list_all (in_class Space) ws" "u \<in> set [''day'', ''week'', ''month'']"
    unfolding lang_time_pattern by blast
  with s have "dgs \<noteq> [] \<and> list_all (in_class Digit) dgs \<and> u \<in> set [''day'', ''week'', ''month''] \<and>
     list_all (in_class Space) ws \<and> s = a @ dgs @ ws @ u @ c"
    by simp
  then have "number_phrase s dgs u" unfolding number_phrase_def by blast
  then show ?R by blast
next
  assume ?R
  then obtain dgs u a ws t where r: "dgs \<noteq> []" "list_all (in_class Digit) dgs"
      "u \<in> set [''day'', ''week'', ''month'']" "list_all (in_class Space) ws" and
      s: "s = a @ dgs @ ws @ u @ t"
    unfolding number_phrase_def by blast
  from r have "dgs @ ws @ u \<in> lang time_pattern" unfolding lang_time_pattern by blast
  moreover from s have "s = a @ (dgs @ ws @ u) @ t" by simp
  ultimately show ?L unfolding re_search_iff by blast
qed

lemma search_time_pattern_Some:
  assumes "re_search time_pattern s = Some g"
  shows "\<exists>dgs u. number_phrase s dgs u \<and> g = [(2, u), (1, dgs)]"
proof -
  from re_search_Some [OF assms] obtain a s' t where
    s: "s = a @ s'" and m: "(t, g) \<in> set (rmatch time_pattern s' [])" by blast
  from time_match_shape [OF m] obtain dgs ws u where
    r: "s' = dgs @ ws @ u @ t" "dgs \<noteq> []" "list_all (in_class Digit) dgs"
      "list_all (in_class Space) ws" "u \<in> set [''day'', ''week'', ''month'']"
      "g = [(2, u), (1, dgs)]" by blast
  from s r(1) have "s = a @ dgs @ ws @ u @ t" by simp
  with r have "number_phrase s dgs u" unfolding number_phrase_def by blast
  with r(6) show ?thesis by blast
qed

lemma period_of_match_units:
  assumes "u \<in> set [''day'', ''week'', ''month'']"
  shows "period_of_match max_str_digits [(2, u), (1, dgs)] =
     (if 0 < max_str_digits \<and> max_str_digits < length dgs then Inl ValueError
      else Inr (digits_value dgs * unit_days u))"
  using assms
  by (auto simp: period_of_match_def group_def int_of_digits_def unit_days_def Let_def)

lemma extract_time_period_day:
  "names_day (lower q) \<Longrightarrow> extract_time_period n q = Inr 1"
  by (auto simp: extract_time_period_def names_day_def Let_def)

lemma extract_time_period_week:
  "\<not> names_day (lower q) \<Longrightarrow> names_week (lower q) \<Longrightarrow> extract_time_period n q = Inr 7"
  by (auto simp: extract_time_period_def names_day_def names_week_def Let_def)

lemma extract_time_period_month:
  "\<not> names_day (lower q) \<Longrightarrow> \<not> names_week (lower q) \<Longrightarrow> names_month (lower q) \<Longrightarrow>
   extract_time_period n q = Inr 30"
  by (auto simp: extract_time_period_def names_day_def names_week_def names_month_def Let_def)

lemma extract_time_period_search:
  "\<not> names_day (lower q) \<Longrightarrow> \<not> names_week (lower q) \<Longrightarrow> \<not> names_month (lower q) \<Longrightarrow>
   extract_time_period n q =
     (case re_search time_pattern (lower q) of None \<Rightarrow> Inr 7 | Some m \<Rightarrow> period_of_match n m)"
  by (auto simp: extract_time_period_def names_day_def names_week_def names_month_def Let_def)

lemma extract_time_period_default:
  assumes "\<not> names_day (lower q)" "\<not> names_week (lower q)" "\<not> names_month (lower q)"
    and "\<forall>dgs u. \<not> number_phrase (lower q) dgs u"
  shows "extract_time_period n q = Inr 7"
proof -
  from assms(4) have "re_search time_pattern (lower q) = None"
    using search_time_pattern [of "lower q"] by blast
  with extract_time_period_search [OF assms(1-3)] show ?thesis by simp
qed

lemma unit_days_pos: "0 < unit_days u"
  by (simp add: unit_days_def)

lemma number_phrase_at: "number_phrase s dgs u \<longleftrightarrow> (\<exists>a. phrase_at a s dgs u)"
  unfolding number_phrase_def phrase_at_def by blast

lemma phrase_at_append: "phrase_at a (a @ s') dgs u \<longleftrightarrow> phrase_at [] s' dgs u"
  unfolding phrase_at_def by simp

lemma space_not_digit: "in_class Space c \<Longrightarrow> \<not> in_class Digit c"
  by (auto simp: Let_def)

lemma unit_letters:
  "\<not> in_class Digit CHR ''d''" "\<not> in_class Space CHR ''d''"
  "\<not> in_class Digit CHR ''w''" "\<not> in_class Space CHR ''w''"
  "\<not> in_class Digit CHR ''m''" "\<not> in_class Space CHR ''m''"
  by code_simp+

lemma unit_head:
  assumes "u \<in> set [''day'', ''week'', ''month'']"
  shows "\<exists>c u0. u = c # u0 \<and> \<not> in_class Digit c \<and> \<not> in_class Space c"
proof -
  from assms consider "u = ''day''" | "u = ''week''" | "u = ''month''" by auto
  then show ?thesis
  proof cases
    case 1
    then have "u = CHR ''d'' # ''ay''" by simp
    with unit_letters(1,2) show ?thesis by blast
  next
    case 2
    then have "u = CHR ''w'' # ''eek''" by simp
    with unit_letters(3,4) show ?thesis by blast
  next
    case 3
    then have "u = CHR ''m'' # ''onth''" by simp
    with unit_letters(5,6) show ?thesis by blast
  qed
qed

lemma takeWhile_stop:
  assumes "list_all P xs" "ys = c # zs" "\<not> P c"
  shows "takeWhile P (xs @ ys) = xs"
  using assms by (simp add: list_all_iff takeWhile_append2)

lemma unit_prefix_unique:
  assumes "u \<in> set [''day'', ''week'', ''month'']" "u' \<in> set [''day'', ''week'', ''month'']"
    and "u @ t = u' @ t'"
  shows "u = u'"
  using assms by auto

lemma phrase_at_unique:
  assumes "phrase_at a s dgs u" "phrase_at a s dgs' u'"
  shows "dgs = dgs' \<and> u = u'"
proof -
  from assms(1) obtain ws t where
    1: "list_all (in_class Digit) dgs" "u \<in> set [''day'', ''week'', ''month'']"
       "list_all (in_class Space) ws" "s = a @ dgs @ ws @ u @ t"
    unfolding phrase_at_def by blast
  from assms(2) obtain ws' t' where
    2: "list_all (in_class Digit) dgs'" "u' \<in> set [''day'', ''week'', ''month'']"
       "list_all (in_class Space) ws'" "s = a @ dgs' @ ws' @ u' @ t'"
    unfolding phrase_at_def by blast
  from unit_head [OF 1(2)] obtain c u0 where c: "u = c # u0" "\<not> in_class Digit c" "\<not> in_class Space c"
    by blast
  from unit_head [OF 2(2)] obtain c' u0' where c': "u' = c' # u0'" "\<not> in_class Digit c'" "\<not> in_class Space c'"
    by blast
  have sp: "takeWhile (in_class Space) (ws @ u @ t) = ws"
    using takeWhile_stop [OF 1(3), of "u @ t" c "u0 @ t"] c by simp
  have sp': "takeWhile (in_class Space) (ws' @ u' @ t') = ws'"
    using takeWhile_stop [OF 2(3), of "u' @ t'" c' "u0' @ t'"] c' by simp
  have nd: "\<exists>d zs. ws @ u @ t = d # zs \<and> \<not> in_class Digit d"
  proof (cases ws)
    case Nil
    with c show ?thesis by simp
  next
    case (Cons w ws0)
    with 1(3) have "in_class Space w" by simp
    with Cons space_not_digit show ?thesis by auto
  qed
  have nd': "\<exists>d zs. ws' @ u' @ t' = d # zs \<and> \<not> in_class Digit d"
  proof (cases ws')
    case Nil
    with c' show ?thesis by simp
  next
    case (Cons w ws0)
    with 2(3) have "in_class Space w" by simp
    with Cons space_not_digit show ?thesis by auto
  qed
  from nd obtain d zs where "ws @ u @ t = d # zs" "\<not> in_class Digit d" by blast
  then have dg: "takeWhile (in_class Digit) (dgs @ ws @ u @ t) = dgs"
    using takeWhile_stop [OF 1(1)] by blast
  from nd' obtain d' zs' where "ws' @ u' @ t' = d' # zs'" "\<not> in_class Digit d'" by blast
  then have dg': "takeWhile (in_class Digit) (dgs' @ ws' @ u' @ t') = dgs'"
    using takeWhile_stop [OF 2(1)] by blast
  from 1(4) 2(4) have e: "dgs @ ws @ u @ t = dgs' @ ws' @ u' @ t'" by simp
  with dg dg' have d: "dgs = dgs'" by simp
  with e have e2: "ws @ u @ t = ws' @ u' @ t'" by simp
  with sp sp' have "ws = ws'" by simp
  with e2 have "u @ t = u' @ t'" by simp
  with unit_prefix_unique [OF 1(2) 2(2)] have "u = u'" by blast
  with d show ?thesis by blast
qed

lemma re_search_leftmost:
  "re_search r s = Some g \<Longrightarrow>
   \<exists>a s' t. s = a @ s' \<and> (t, g) \<in> set (rmatch r s' []) \<and>
     (\<forall>a'' s''. s = a'' @ s'' \<and> length a'' < length a \<longrightarrow> rmatch r s'' [] = [])"
proof (induction s)
  case Nil
  then obtain m ms where m: "rmatch r [] [] = m # ms" "g = snd m"
    by (auto split: list.splits)
  then have "m \<in> set (rmatch r [] [])" by simp
  then have "(fst m, g) \<in> set (rmatch r [] [])" using m(2) by simp
  moreover have "[] = [] @ ([]::string)" by simp
  moreover have "\<forall>a'' s''. [] = a'' @ s'' \<and> length a'' < length ([]::string) \<longrightarrow> rmatch r s'' [] = []"
    by simp
  ultimately show ?case by blast
next
  case step: (Cons c cs)
  show ?case
  proof (cases "rmatch r (c # cs) []")
    case Nil
    with step.prems have "re_search r cs = Some g" by simp
    with step.IH obtain a s' t where
      1: "cs = a @ s'" "(t, g) \<in> set (rmatch r s' [])" and
      2: "\<forall>a'' s''. cs = a'' @ s'' \<and> length a'' < length a \<longrightarrow> rmatch r s'' [] = []"
      by blast
    have 3: "\<forall>a'' s''. c # cs = a'' @ s'' \<and> length a'' < length (c # a) \<longrightarrow> rmatch r s'' [] = []"
    proof (intro allI impI)
      fix a'' s''
      assume h: "c # cs = a'' @ s'' \<and> length a'' < length (c # a)"
      show "rmatch r s'' [] = []"
      proof (cases a'')
        case Nil
        with h have "s'' = c # cs" by simp
        with \<open>rmatch r (c # cs) [] = []\<close> show ?thesis by simp
      next
        case (Cons x xs)
        with h have "cs = xs @ s''" "length xs < length a" by simp_all
        with 2 show ?thesis by blast
      qed
    qed
    from 1 have "c # cs = (c # a) @ s'" by simp
    with 1(2) 3 show ?thesis by blast
  next
    case (Cons m ms)
    with step.prems have "g = snd m" by simp
    moreover have "m \<in> set (rmatch r (c # cs) [])" using Cons by simp
    ultimately have "(fst m, g) \<in> set (rmatch r (c # cs) [])" by simp
    moreover have "c # cs = [] @ (c # cs)" by simp
    moreover have "\<forall>a'' s''. c # cs = a'' @ s'' \<and> length a'' < length ([]::string) \<longrightarrow> rmatch r s'' [] = []"
      by simp
    ultimately show ?thesis by blast
  qed
qed

lemma rmatch_time_phrase:
  assumes "phrase_at [] s' dgs u"
  shows "rmatch time_pattern s' [] \<noteq> []"
proof -
  from assms obtain ws t where "dgs \<noteq> []" "list_all (in_class Digit) dgs"
      "u \<in> set [''day'', ''week'', ''month'']" "list_all (in_class Space) ws"
      "s' = dgs @ ws @ u @ t"
    unfolding phrase_at_def by auto
  then have "dgs @ ws @ u \<in> lang time_pattern" "s' = (dgs @ ws @ u) @ t"
    unfolding lang_time_pattern by auto
  then show ?thesis unfolding rmatch_nonempty by blast
qed

lemma search_time_pattern_first:
  assumes "re_search time_pattern s = Some g"
  shows "\<exists>dgs u. first_number_phrase s dgs u \<and> g = [(2, u), (1, dgs)]"
proof -
  from re_search_leftmost [OF assms] obtain a s' t where
    s: "s = a @ s'" and m: "(t, g) \<in> set (rmatch time_pattern s' [])" and
    l: "\<forall>a'' s''. s = a'' @ s'' \<and> length a'' < length a \<longrightarrow> rmatch time_pattern s'' [] = []"
    by blast
  from time_match_shape [OF m] obtain dgs ws u where
    r: "s' = dgs @ ws @ u @ t" "dgs \<noteq> []" "list_all (in_class Digit) dgs"
      "list_all (in_class Space) ws" "u \<in> set [''day'', ''week'', ''month'']"
      "g = [(2, u), (1, dgs)]" by blast
  from r s have p: "phrase_at a s dgs u" unfolding phrase_at_def by auto
  have "length a \<le> length a'" if q: "phrase_at a' s dgs' u'" for a' dgs' u'
  proof (rule ccontr)
    assume "\<not> length a \<le> length a'"
    then have lt: "length a' < length a" by simp
    from q obtain s'' where s'': "s = a' @ s''" unfolding phrase_at_def by auto
    with q have "phrase_at [] s'' dgs' u'" using phrase_at_append by simp
    then have "rmatch time_pattern s'' [] \<noteq> []" by (rule rmatch_time_phrase)
    with l s'' lt show False by blast
  qed
  with p have "first_number_phrase s dgs u" unfolding first_number_phrase_def by blast
  with r(6) show ?thesis by blast
qed

lemma first_number_phrase_unique:
  assumes "first_number_phrase s dgs u" "first_number_phrase s dgs' u'"
  shows "dgs = dgs' \<and> u = u'"
proof -
  from assms(1) obtain a where a: "phrase_at a s dgs u"
    "\<forall>b dgs' u'. phrase_at b s dgs' u' \<longrightarrow> length a \<le> length b"
    unfolding first_number_phrase_def by blast
  from assms(2) obtain a' where a': "phrase_at a' s dgs' u'"
    "\<forall>b dgs u. phrase_at b s dgs u \<longrightarrow> length a' \<le> length b"
    unfolding first_number_phrase_def by blast
  from a a' have len: "length a = length a'" by (meson le_antisym)
  from a(1) obtain x where "s = a @ x" unfolding phrase_at_def by auto
  moreover from a'(1) obtain x' where "s = a' @ x'" unfolding phrase_at_def by auto
  ultimately have "a = a'" using len by (metis append_eq_append_conv)
  with a(1) a'(1) phrase_at_unique show ?thesis by blast
qed

lemma first_number_phrase_number: "first_number_phrase s dgs u \<Longrightarrow> number_phrase s dgs u"
  unfolding first_number_phrase_def number_phrase_at by blast

lemma number_phrase_first:
  "(\<exists>dgs u. number_phrase s dgs u) \<longleftrightarrow> (\<exists>dgs u. first_number_phrase s dgs u)"
proof
  assume "\<exists>dgs u. number_phrase s dgs u"
  then obtain g where "re_search time_pattern s = Some g"
    using search_time_pattern [of s] by blast
  from search_time_pattern_first [OF this] show "\<exists>dgs u. first_number_phrase s dgs u" by blast
next
  assume "\<exists>dgs u. first_number_phrase s dgs u"
  then show "\<exists>dgs u. number_phrase s dgs u" using first_number_phrase_number by blast
qed

lemma first_number_phrase_start:
  assumes "phrase_at [] s dgs u"
  shows "first_number_phrase s dgs u"
  unfolding first_number_phrase_def using assms by (intro exI [of _ "[]"]) simp

lemma first_number_phrase_whole_run:
  assumes "first_number_phrase s dgs u"
  shows "\<exists>a rest c r. s = a @ dgs @ rest \<and> (a = [] \<or> \<not> in_class Digit (last a)) \<and>
           rest = c # r \<and> \<not> in_class Digit c"
proof -
  from assms obtain a where a: "phrase_at a s dgs u"
    and l: "\<forall>b dgs' u'. phrase_at b s dgs' u' \<longrightarrow> length a \<le> length b"
    unfolding first_number_phrase_def by blast
  from a obtain ws t where
    1: "dgs \<noteq> []" "list_all (in_class Digit) dgs" "u \<in> set [''day'', ''week'', ''month'']"
       "list_all (in_class Space) ws" "s = a @ dgs @ ws @ u @ t"
    unfolding phrase_at_def by blast
  from unit_head [OF 1(3)] obtain c u0 where c: "u = c # u0" "\<not> in_class Digit c" by blast
  have nd: "\<exists>d zs. ws @ u @ t = d # zs \<and> \<not> in_class Digit d"
  proof (cases ws)
    case Nil
    with c show ?thesis by simp
  next
    case (Cons w ws0)
    with 1(4) have "in_class Space w" by simp
    with Cons space_not_digit show ?thesis by auto
  qed
  have left: "a = [] \<or> \<not> in_class Digit (last a)"
  proof (rule ccontr)
    assume "\<not> (a = [] \<or> \<not> in_class Digit (last a))"
    then have ne: "a \<noteq> []" and d: "in_class Digit (last a)" by simp_all
    from ne have a': "a = butlast a @ [last a]" by simp
    have "s = butlast a @ (last a # dgs) @ ws @ u @ t"
      using 1(5) a' by (metis append.assoc append_Cons append_Nil)
    with 1 d have "phrase_at (butlast a) s (last a # dgs) u"
      unfolding phrase_at_def by auto
    with l have "length a \<le> length (butlast a)" by blast
    moreover from ne have "length (butlast a) < length a"
      by (cases a rule: rev_cases) simp_all
    ultimately show False by linarith
  qed
  from nd obtain d zs where "ws @ u @ t = d # zs" "\<not> in_class Digit d" by blast
  with 1(5) left show ?thesis by blast
qed

lemma extract_time_period_first:
  assumes "\<not> names_day (lower q)" "\<not> names_week (lower q)" "\<not> names_month (lower q)"
    and "first_number_phrase (lower q) dgs u"
  shows "extract_time_period n q =
       (if 0 < n \<and> n < length dgs then Inl ValueError
        else Inr (digits_value dgs * unit_days u))"
proof -
  from assms(4) have "\<exists>dgs u. number_phrase (lower q) dgs u"
    using first_number_phrase_number by blast
  then obtain g where g: "re_search time_pattern (lower q) = Some g"
    using search_time_pattern [of "lower q"] by blast
  from search_time_pattern_first [OF g] obtain dgs' u' where
    f: "first_number_phrase (lower q) dgs' u'" and gg: "g = [(2, u'), (1, dgs')]" by blast
  from first_number_phrase_unique [OF assms(4) f] gg have gg': "g = [(2, u), (1, dgs)]" by simp
  from assms(4) have u: "u \<in> set [''day'', ''week'', ''month'']"
    unfolding first_number_phrase_def phrase_at_def by blast
  from extract_time_period_search [OF assms(1-3)] g gg'
  have "extract_time_period n q = period_of_match n [(2, u), (1, dgs)]" by simp
  with period_of_match_units [OF u] show ?thesis by simp
qed

lemma extract_time_period_zero_first:
  assumes "extract_time_period n q = Inr 0"
  shows "\<exists>dgs u. first_number_phrase (lower q) dgs u \<and> digits_value dgs = 0"
proof -
  have d: "\<not> names_day (lower q)"
    using extract_time_period_day [of q n] assms by auto
  have w: "\<not> names_week (lower q)"
    using extract_time_period_week [OF d, of n] assms by auto
  have m: "\<not> names_month (lower q)"
    using extract_time_period_month [OF d w, of n] assms by auto
  have "\<exists>dgs u. number_phrase (lower q) dgs u"
    using extract_time_period_default [OF d w m, of n] assms by auto
  then obtain dgs u where f: "first_number_phrase (lower q) dgs u"
    unfolding number_phrase_first by blast
  from extract_time_period_first [OF d w m f, of n] assms
  have "digits_value dgs * unit_days u = 0" by (auto split: if_splits)
  with unit_days_pos [of u] have "digits_value dgs = 0" by simp
  with f show ?thesis by blast
qed

lemma extract_time_period_error_first:
  assumes "extract_time_period n q = Inl e"
  shows "e = ValueError \<and> 0 < n \<and> (\<exists>dgs u. first_number_phrase (lower q) dgs u \<and> n < length dgs)"
proof -
  have d: "\<not> names_day (lower q)"
    using extract_time_period_day [of q n] assms by auto
  have w: "\<not> names_week (lower q)"
    using extract_time_period_week [OF d, of n] assms by auto
  have m: "\<not> names_month (lower q)"
    using extract_time_period_month [OF d w, of n] assms by auto
  have "\<exists>dgs u. number_phrase (lower q) dgs u"
    using extract_time_period_default [OF d w m, of n] assms by auto
  then obtain dgs u where f: "first_number_phrase (lower q) dgs u"
    unfolding number_phrase_first by blast
  from extract_time_period_first [OF d w m f, of n] assms
  have "e = ValueError \<and> 0 < n \<and> n < length dgs" by (auto split: if_splits)
  with f show ?thesis by blast
qed

lemma str_in_set: "str_in w s \<Longrightarrow> set w \<subseteq> set s"
  unfolding str_in_iff by auto

lemma search_first_number_phrase:
  assumes "re_search time_pattern s = Some [(2, u), (1, dgs)]"
  shows "first_number_phrase s dgs u"
  using search_time_pattern_first [OF assms] by auto

lemma ones_lower: "lower (replicate k CHR ''1'' @ '' days'') = replicate k CHR ''1'' @ '' days''"
proof -
  have one: "lower_char CHR ''1'' = CHR ''1''" by code_simp
  have ld: "map lower_char '' days'' = '' days''" by code_simp
  show ?thesis by (simp only: lower_def map_append map_replicate one ld)
qed

lemma ones_no_fixed_phrase:
  "\<not> names_day (replicate k CHR ''1'' @ '' days'')"
  "\<not> names_week (replicate k CHR ''1'' @ '' days'')"
  "\<not> names_month (replicate k CHR ''1'' @ '' days'')"
proof -
  let ?big = "replicate k CHR ''1'' @ '' days''"
  have "set ?big \<subseteq> {CHR ''1'', CHR '' '', CHR ''d'', CHR ''a'', CHR ''y'', CHR ''s''}"
    by auto
  then have nt: "CHR ''t'' \<notin> set ?big" "CHR ''n'' \<notin> set ?big" by auto
  have ns: "\<not> str_in w ?big" if "CHR ''t'' \<in> set w \<or> CHR ''n'' \<in> set w" for w
    using that nt str_in_set [of w ?big] by blast
  show "\<not> names_day ?big" "\<not> names_week ?big" "\<not> names_month ?big"
    unfolding names_day_def names_week_def names_month_def
    by (simp_all add: ns)
qed

lemma ones_first_phrase:
  assumes "0 < k"
  shows "first_number_phrase (replicate k CHR ''1'' @ '' days'') (replicate k CHR ''1'') ''day''"
proof -
  have one: "in_class Digit CHR ''1''" by code_simp
  have "replicate k CHR ''1'' @ '' days'' = [] @ replicate k CHR ''1'' @ '' '' @ ''day'' @ ''s''"
    by simp
  moreover have "list_all (in_class Space) '' ''" by code_simp
  moreover have "list_all (in_class Digit) (replicate k CHR ''1'')"
    using one by (simp add: list_all_iff)
  moreover have "replicate k CHR ''1'' \<noteq> []" using assms by simp
  moreover have "''day'' \<in> set [''day'', ''week'', ''month'']" by simp
  ultimately have "phrase_at [] (replicate k CHR ''1'' @ '' days'') (replicate k CHR ''1'') ''day''"
    unfolding phrase_at_def by blast
  then show ?thesis by (rule first_number_phrase_start)
qed

section \<open>Inventory and materials\<close>

lemma rint_bounds: "\<lfloor>x\<rfloor> \<le> rint x \<and> rint x \<le> \<lfloor>x\<rfloor> + 1"
  by (simp add: rint_def Let_def)

lemma rint_mono:
  assumes "x \<le> y"
  shows "rint x \<le> rint y"
proof (cases "\<lfloor>x\<rfloor> = \<lfloor>y\<rfloor>")
  case True
  with assms have "x - of_int \<lfloor>x\<rfloor> \<le> y - of_int \<lfloor>y\<rfloor>" by simp
  with True show ?thesis by (auto simp: rint_def Let_def)
next
  case False
  with floor_mono [OF assms] have "\<lfloor>x\<rfloor> + 1 \<le> \<lfloor>y\<rfloor>" by simp
  with rint_bounds [of x] rint_bounds [of y] show ?thesis by linarith
qed

lemma inventory_of_covers:
  assumes "yhat row \<le> yhat_upper row" "0 \<le> service_level"
  shows "expected_demand (inventory_of service_level row)
         \<le> recommended_production (inventory_of service_level row)"
proof -
  have "0 \<le> (yhat_upper row - yhat row) * service_level"
    using assms by simp
  then have "yhat row \<le> yhat row + (yhat_upper row - yhat row) * service_level" by simp
  then show ?thesis by (simp add: inventory_of_def Let_def rint_mono)
qed








text \<open>
  The clip of \<open>predict\<close> raises \<open>yhat\<close> to 0 and leaves the bounds alone: the points it
  returns lie within their bounds when the model's do and no upper bound is negative.
\<close>

lemma predict_keeps_bounds:
  assumes "trained self" "map_of (models self) p = Some model"
    and "\<forall>row \<in> set (model d). yhat_lower row \<le> yhat row \<and> yhat row \<le> yhat_upper row \<and>
           0 \<le> yhat_upper row"
  shows "\<exists>forecast. predict self p d = Inr forecast \<and>
     (\<forall>row \<in> set forecast. 0 \<le> yhat row \<and> yhat_lower row \<le> yhat row \<and> yhat row \<le> yhat_upper row)"
proof -
  have "set (tail d (model d)) \<subseteq> set (model d)"
    unfolding tail_def by (rule set_drop_subset)
  with assms(3) have "\<forall>row \<in> set (tail d (model d)).
      yhat_lower row \<le> yhat row \<and> yhat row \<le> yhat_upper row \<and> 0 \<le> yhat_upper row"
    by blast
  with assms(1,2) show ?thesis by (auto simp: predict_def)
qed

lemma materials_loop_totals:
  "materials_loop table self d ps m =
     (case production_totals self d ps of
        Inl e \<Rightarrow> Inl e
      | Inr ts \<Rightarrow> Inr (fold (\<lambda>(p, t). add_product table p t) ts m))"
  by (induction ps arbitrary: m) (auto simp: Let_def split: sum.splits)

lemma raw_materials_with_totals:
  "raw_materials_with table self d =
     (case production_totals self d (map fst (models self)) of
        Inl e \<Rightarrow> Inl e
      | Inr ts \<Rightarrow> materials_frame (aggregate_materials table ts))"
  by (simp add: raw_materials_with_def materials_loop_totals aggregate_materials_def
      split: sum.splits)




























lemma fold_filter_id:
  assumes "\<And>x m. \<not> P x \<Longrightarrow> f x m = m"
  shows "fold f (filter P xs) m = fold f xs m"
  using assms by (induction xs arbitrary: m) auto

lemma aggregate_filter:
  "aggregate_materials table
     (filter (\<lambda>(product_name, total). map_of table product_name \<noteq> None) totals) =
   aggregate_materials table totals"
  unfolding aggregate_materials_def
  by (rule fold_filter_id) (auto simp: add_product_def)

section \<open>The scenarios of the router\<close>

text \<open>
  Claim C1, as the specification states it: \<open>classify_query\<close> of
  "What raw materials should I order?" is \<open>(RAW_MATERIALS, 0.85)\<close>. The code does not return
  that pair.
\<close>

theorem raw_materials_query_counterexample:
  "classify_query ''What raw materials should I order?'' \<noteq> (RAW_MATERIALS, 85 / 100)"
  by code_simp

text \<open>
  Claim C1, amended: the query holds no "need", so the pattern "what ... do/should ...
  we/i ... need" does not match it, and no other pattern rule does; one keyword of each
  vocabulary occurs ("material" and "should i"), so the scores tie and \<open>classify_query\<close>
  returns \<open>(GENERAL_QUESTION, 0.5)\<close>. \<open>route\<close> gives no product, a period of 7 days,
  \<open>use_ml = False\<close> and \<open>use_llm = True\<close>.
\<close>

theorem raw_materials_query_routing:
  "classify_query ''What raw materials should I order?'' = (GENERAL_QUESTION, 5 / 10) \<and>
   re_search pattern2 (lower ''What raw materials should I order?'') = None \<and>
   keyword_score ml_keywords (lower ''What raw materials should I order?'') = 1 \<and>
   keyword_score llm_keywords (lower ''What raw materials should I order?'') = 1 \<and>
   route max_str_digits ''What raw materials should I order?'' =
     Inr \<lparr>query_type = GENERAL_QUESTION, confidence = 5 / 10, product = None,
          time_period = 7, use_ml = False, use_llm = True,
          original_query = ''What raw materials should I order?''\<rparr>"
  by code_simp

text \<open>
  Claim C2, as the specification states it: \<open>classify_query\<close> of
  "Should I increase production for the holidays?" is \<open>(BUSINESS_ADVICE, 0.85)\<close>. The code
  does not return that pair.
\<close>

theorem holiday_production_query_counterexample:
  "classify_query ''Should I increase production for the holidays?'' \<noteq>
     (BUSINESS_ADVICE, 85 / 100)"
  by code_simp

text \<open>
  Claim C2, amended: the query starts with "should i" and holds "production"; the
  production/inventory/stock rule is checked before the "should i" rule, so
  \<open>classify_query\<close> returns \<open>(INVENTORY_NEEDS, 0.8)\<close>.
\<close>

theorem holiday_production_query_class:
  "classify_query ''Should I increase production for the holidays?'' = (INVENTORY_NEEDS, 8 / 10) \<and>
   any_in [''production'', ''inventory'', ''stock'']
     (lower ''Should I increase production for the holidays?'') \<and>
   startswith (lower ''Should I increase production for the holidays?'') ''should i''"
  by code_simp

text \<open>
  Claim C9: \<open>route\<close> of the empty string returns (no exception) the decision
  \<open>GENERAL_QUESTION\<close> with confidence 0.5, no product and a period of 7 days. Any query that
  no pattern rule matches and whose two keyword scores tie is classified
  \<open>(GENERAL_QUESTION, 0.5)\<close>; when both scores are 0 no pattern rule can match, since each
  rule needs a word of one of the vocabularies.
\<close>

theorem unmatched_query_is_general:
  "route max_str_digits [] =
     Inr \<lparr>query_type = GENERAL_QUESTION, confidence = 5 / 10, product = None,
          time_period = 7, use_ml = False, use_llm = True, original_query = []\<rparr> \<and>
   (re_search pattern1 (lower q) = None \<and> re_search pattern2 (lower q) = None \<and>
    \<not> any_in [''production'', ''inventory'', ''stock''] (lower q) \<and>
    re_search pattern4 (lower q) = None \<and>
    \<not> startswith (lower q) ''should i'' \<and> \<not> str_in ''recommend'' (lower q) \<and>
    keyword_score ml_keywords (lower q) = keyword_score llm_keywords (lower q)
    \<longrightarrow> classify_query q = (GENERAL_QUESTION, 5 / 10)) \<and>
   (keyword_score ml_keywords (lower q) = 0 \<and> keyword_score llm_keywords (lower q) = 0
    \<longrightarrow> classify_query q = (GENERAL_QUESTION, 5 / 10))"
proof (intro conjI impI)
  show "route max_str_digits [] =
     Inr \<lparr>query_type = GENERAL_QUESTION, confidence = 5 / 10, product = None,
          time_period = 7, use_ml = False, use_llm = True, original_query = []\<rparr>"
    by code_simp
next
  assume "re_search pattern1 (lower q) = None \<and> re_search pattern2 (lower q) = None \<and>
    \<not> any_in [''production'', ''inventory'', ''stock''] (lower q) \<and>
    re_search pattern4 (lower q) = None \<and>
    \<not> startswith (lower q) ''should i'' \<and> \<not> str_in ''recommend'' (lower q) \<and>
    keyword_score ml_keywords (lower q) = keyword_score llm_keywords (lower q)"
  then show "classify_query q = (GENERAL_QUESTION, 5 / 10)"
    by (simp add: classify_no_rule)
next
  assume z: "keyword_score ml_keywords (lower q) = 0 \<and> keyword_score llm_keywords (lower q) = 0"
  then have "re_search pattern1 (lower q) = None \<and> re_search pattern2 (lower q) = None \<and>
    \<not> any_in [''production'', ''inventory'', ''stock''] (lower q) \<and>
    re_search pattern4 (lower q) = None \<and>
    \<not> startswith (lower q) ''should i'' \<and> \<not> str_in ''recommend'' (lower q)"
    using zero_scores_no_rule by blast
  with z show "classify_query q = (GENERAL_QUESTION, 5 / 10)"
    by (simp add: classify_no_rule)
qed

theorem unmatched_query_is_general_witness:
  "keyword_score ml_keywords (lower ''Good morning!'') = 0 \<and>
   keyword_score llm_keywords (lower ''Good morning!'') = 0 \<and>
   classify_query ''Good morning!'' = (GENERAL_QUESTION, 5 / 10)"
proof -
  have h: "keyword_score ml_keywords (lower ''Good morning!'') = 0 \<and>
   keyword_score llm_keywords (lower ''Good morning!'') = 0"
    by code_simp
  with unmatched_query_is_general [of 0 "''Good morning!''"]
  have "classify_query ''Good morning!'' = (GENERAL_QUESTION, 5 / 10)" by blast
  with h show ?thesis by blast
qed

text \<open>
  Claim C8: in every decision that \<open>route\<close> returns, \<open>use_ml\<close> holds exactly when the
  query type is one of \<open>FORECAST_DEMAND\<close>, \<open>INVENTORY_NEEDS\<close>, \<open>RAW_MATERIALS\<close>, and
  \<open>use_llm\<close> exactly when it is one of \<open>BUSINESS_ADVICE\<close>, \<open>SUPPLIER_INFO\<close>,
  \<open>GENERAL_QUESTION\<close>; so exactly one of the two flags is true. Every query type is the
  type of some decision, so this covers all six.
\<close>

theorem route_capability_flags:
  "(route max_str_digits q = Inr d \<longrightarrow>
      (use_ml d \<longleftrightarrow> query_type d \<in> {FORECAST_DEMAND, INVENTORY_NEEDS, RAW_MATERIALS}) \<and>
      (use_llm d \<longleftrightarrow> query_type d \<in> {BUSINESS_ADVICE, SUPPLIER_INFO, GENERAL_QUESTION}) \<and>
      (use_ml d \<longleftrightarrow> \<not> use_llm d)) \<and>
   (\<exists>q' d'. route max_str_digits q' = Inr d' \<and> query_type d' = qt)"
proof
  show "route max_str_digits q = Inr d \<longrightarrow>
      (use_ml d \<longleftrightarrow> query_type d \<in> {FORECAST_DEMAND, INVENTORY_NEEDS, RAW_MATERIALS}) \<and>
      (use_llm d \<longleftrightarrow> query_type d \<in> {BUSINESS_ADVICE, SUPPLIER_INFO, GENERAL_QUESTION}) \<and>
      (use_ml d \<longleftrightarrow> \<not> use_llm d)"
  proof
    assume r: "route max_str_digits q = Inr d"
    obtain t c where tc: "classify_query q = (t, c)" by (cases "classify_query q")
    from r tc have "query_type d = t"
      "use_ml d = List.member [FORECAST_DEMAND, INVENTORY_NEEDS, RAW_MATERIALS] t"
      "use_llm d = List.member [BUSINESS_ADVICE, SUPPLIER_INFO, GENERAL_QUESTION] t"
      by (auto simp: route_def Let_def split: sum.splits)
    then show "(use_ml d \<longleftrightarrow> query_type d \<in> {FORECAST_DEMAND, INVENTORY_NEEDS, RAW_MATERIALS}) \<and>
      (use_llm d \<longleftrightarrow> query_type d \<in> {BUSINESS_ADVICE, SUPPLIER_INFO, GENERAL_QUESTION}) \<and>
      (use_ml d \<longleftrightarrow> \<not> use_llm d)"
      by (cases t) simp_all
  qed
next
  have fd: "route max_str_digits ''How many croissants do we need for next week?'' =
     Inr \<lparr>query_type = FORECAST_DEMAND, confidence = 9 / 10, product = Some ''Croissant'',
          time_period = 7, use_ml = True, use_llm = False,
          original_query = ''How many croissants do we need for next week?''\<rparr>"
    by code_simp
  have inv: "route max_str_digits ''Should I increase production for the holidays?'' =
     Inr \<lparr>query_type = INVENTORY_NEEDS, confidence = 8 / 10, product = None,
          time_period = 7, use_ml = True, use_llm = False,
          original_query = ''Should I increase production for the holidays?''\<rparr>"
    by code_simp
  have rm: "route max_str_digits ''What ingredients do we need?'' =
     Inr \<lparr>query_type = RAW_MATERIALS, confidence = 85 / 100, product = None,
          time_period = 7, use_ml = True, use_llm = False,
          original_query = ''What ingredients do we need?''\<rparr>"
    by code_simp
  have ba: "route max_str_digits ''Should I open on Sundays?'' =
     Inr \<lparr>query_type = BUSINESS_ADVICE, confidence = 85 / 100, product = None,
          time_period = 7, use_ml = False, use_llm = True,
          original_query = ''Should I open on Sundays?''\<rparr>"
    by code_simp
  have si: "route max_str_digits ''Where can I buy cheap flour?'' =
     Inr \<lparr>query_type = SUPPLIER_INFO, confidence = 9 / 10, product = None,
          time_period = 7, use_ml = False, use_llm = True,
          original_query = ''Where can I buy cheap flour?''\<rparr>"
    by code_simp
  have gq: "route max_str_digits [] =
     Inr \<lparr>query_type = GENERAL_QUESTION, confidence = 5 / 10, product = None,
          time_period = 7, use_ml = False, use_llm = True, original_query = []\<rparr>"
    by code_simp
  show "\<exists>q' d'. route max_str_digits q' = Inr d' \<and> query_type d' = qt"
  proof (cases qt)
    case FORECAST_DEMAND
    with fd show ?thesis by (intro exI conjI) (assumption, simp)
  next
    case INVENTORY_NEEDS
    with inv show ?thesis by (intro exI conjI) (assumption, simp)
  next
    case RAW_MATERIALS
    with rm show ?thesis by (intro exI conjI) (assumption, simp)
  next
    case BUSINESS_ADVICE
    with ba show ?thesis by (intro exI conjI) (assumption, simp)
  next
    case SUPPLIER_INFO
    with si show ?thesis by (intro exI conjI) (assumption, simp)
  next
    case GENERAL_QUESTION
    with gq show ?thesis by (intro exI conjI) (assumption, simp)
  qed
qed

theorem route_capability_flags_witness:
  "route 4300 ''Where can I buy cheap flour?'' =
     Inr \<lparr>query_type = SUPPLIER_INFO, confidence = 9 / 10, product = None,
          time_period = 7, use_ml = False, use_llm = True,
          original_query = ''Where can I buy cheap flour?''\<rparr> \<and>
   use_llm \<lparr>query_type = SUPPLIER_INFO, confidence = 9 / 10, product = None,
          time_period = 7, use_ml = False, use_llm = True,
          original_query = ''Where can I buy cheap flour?''\<rparr> =
   (query_type \<lparr>query_type = SUPPLIER_INFO, confidence = 9 / 10, product = None,
          time_period = 7, use_ml = False, use_llm = True,
          original_query = ''Where can I buy cheap flour?''\<rparr>
      \<in> {BUSINESS_ADVICE, SUPPLIER_INFO, GENERAL_QUESTION})"
proof -
  have r: "route 4300 ''Where can I buy cheap flour?'' =
     Inr \<lparr>query_type = SUPPLIER_INFO, confidence = 9 / 10, product = None,
          time_period = 7, use_ml = False, use_llm = True,
          original_query = ''Where can I buy cheap flour?''\<rparr>"
    by code_simp
  with route_capability_flags [of 4300 "''Where can I buy cheap flour?''" _ SUPPLIER_INFO]
  show ?thesis by blast
qed

section \<open>The quantity rule\<close>

text \<open>
  Claim C3, as the specification states it: whenever "how many" or "how much" occurs
  together with a product name, in either order, the class is \<open>(FORECAST_DEMAND, 0.9)\<close>.
  The query below names the product before the quantity phrase and is not classified so
  (its class is \<open>FORECAST_DEMAND\<close> with confidence 0.6, from the keyword scores).
\<close>

theorem product_before_quantity_counterexample:
  "str_in ''how many'' (lower ''Croissants: how many?'') \<and>
   str_in ''croissant'' (lower ''Croissants: how many?'') \<and>
   classify_query ''Croissants: how many?'' \<noteq> (FORECAST_DEMAND, 9 / 10)"
  by code_simp

text \<open>
  Claim C3, amended: when, in the lower-cased query, "how many" or "how much" is followed,
  with no line break in between, by one of croissant, baguette, sourdough, sandwich, donut,
  muffin, then \<open>classify_query\<close> returns \<open>(FORECAST_DEMAND, 0.9)\<close>, whichever of the six is
  named and whatever else the query holds.
\<close>

theorem quantity_then_product_is_forecast:
  assumes "lower q = a @ ''how '' @ m @ b @ p @ c"
    and "m \<in> set [''many'', ''much'']"
    and "CHR 0x0A \<notin> set b"
    and "p \<in> set [''croissant'', ''baguette'', ''sourdough'', ''sandwich'', ''donut'', ''muffin'']"
  shows "classify_query q = (FORECAST_DEMAND, 9 / 10)"
  unfolding forecast_demand_high_iff using assms by blast

theorem quantity_then_product_is_forecast_witness:
  "lower ''How much sourdough for Friday?'' =
     [] @ ''how '' @ ''much'' @ '' '' @ ''sourdough'' @ '' for friday?'' \<and>
   classify_query ''How much sourdough for Friday?'' = (FORECAST_DEMAND, 9 / 10)"
proof -
  have l: "lower ''How much sourdough for Friday?'' =
      [] @ ''how '' @ ''much'' @ '' '' @ ''sourdough'' @ '' for friday?''"
    by code_simp
  have "classify_query ''How much sourdough for Friday?'' = (FORECAST_DEMAND, 9 / 10)"
    by (rule quantity_then_product_is_forecast [OF l]) simp_all
  with l show ?thesis by blast
qed

section \<open>Product extraction\<close>

text \<open>
  Claim C10: for every query \<open>extract_product\<close> returns no product or one of the seven
  identifiers Croissant, Baguette, Sourdough, Sandwich, Donut, Muffin, Cinnamon_Roll; the
  eight entries of the product list normalise to these, "cinnamon roll" and
  "cinnamon_roll" both to Cinnamon_Roll; the entry that occurs in the query and is earliest
  in the list gives the result; and the result is no product exactly when no entry occurs.
\<close>

theorem extract_product_canonical:
  "(extract_product q = None \<or>
    extract_product q \<in> Some ` {''Croissant'', ''Baguette'', ''Sourdough'', ''Sandwich'',
                                ''Donut'', ''Muffin'', ''Cinnamon_Roll''}) \<and>
   map normalize_product products =
     [''Croissant'', ''Baguette'', ''Sourdough'', ''Sandwich'', ''Donut'', ''Muffin'',
      ''Cinnamon_Roll'', ''Cinnamon_Roll''] \<and>
   (i < length products \<and> str_in (products ! i) (lower q) \<and>
    (\<forall>j < i. \<not> str_in (products ! j) (lower q))
    \<longrightarrow> extract_product q = Some (normalize_product (products ! i))) \<and>
   (extract_product q = None \<longleftrightarrow> (\<forall>p \<in> set products. \<not> str_in p (lower q)))"
proof (intro conjI impI)
  show "extract_product q = None \<or>
    extract_product q \<in> Some ` {''Croissant'', ''Baguette'', ''Sourdough'', ''Sandwich'',
                                ''Donut'', ''Muffin'', ''Cinnamon_Roll''}"
  proof (cases "extract_product q")
    case None
    then show ?thesis by simp
  next
    case (Some r)
    then have "first_product products (lower q) = Some r"
      by (simp only: extract_product_def)
    from first_product_Some [OF this]
    obtain p where "p \<in> set products" "r = normalize_product p" by blast
    then have "r \<in> set (map normalize_product products)" by simp
    then have "r \<in> {''Croissant'', ''Baguette'', ''Sourdough'', ''Sandwich'',
                                ''Donut'', ''Muffin'', ''Cinnamon_Roll''}"
      by (simp only: normalized_products) simp
    with Some show ?thesis by simp
  qed
next
  show "map normalize_product products =
     [''Croissant'', ''Baguette'', ''Sourdough'', ''Sandwich'', ''Donut'', ''Muffin'',
      ''Cinnamon_Roll'', ''Cinnamon_Roll'']"
    by (rule normalized_products)
next
  assume "i < length products \<and> str_in (products ! i) (lower q) \<and>
    (\<forall>j < i. \<not> str_in (products ! j) (lower q))"
  then have "i < length products" "str_in (products ! i) (lower q)"
    "\<forall>j < i. \<not> str_in (products ! j) (lower q)" by simp_all
  then show "extract_product q = Some (normalize_product (products ! i))"
    unfolding extract_product_def by (rule first_product_index)
next
  show "extract_product q = None \<longleftrightarrow> (\<forall>p \<in> set products. \<not> str_in p (lower q))"
    unfolding extract_product_def by (rule first_product_None)
qed

theorem extract_product_canonical_witness:
  "(6::nat) < length products \<and>
   str_in (products ! 6) (lower ''Two Cinnamon Rolls, please'') \<and>
   list_all (\<lambda>p. \<not> str_in p (lower ''Two Cinnamon Rolls, please'')) (take 6 products) \<and>
   extract_product ''Two Cinnamon Rolls, please'' = Some ''Cinnamon_Roll''"
proof -
  have a: "(6::nat) < length products"
    "str_in (products ! 6) (lower ''Two Cinnamon Rolls, please'')"
    "normalize_product (products ! 6) = ''Cinnamon_Roll''"
    by code_simp+
  have c: "list_all (\<lambda>p. \<not> str_in p (lower ''Two Cinnamon Rolls, please'')) (take 6 products)"
    by code_simp
  then have b: "\<forall>j < 6. \<not> str_in (products ! j) (lower ''Two Cinnamon Rolls, please'')"
    using a(1) by (simp add: list_all_length)
  from extract_product_canonical [of "''Two Cinnamon Rolls, please''" 6] a b
  have "extract_product ''Two Cinnamon Rolls, please'' = Some ''Cinnamon_Roll''"
    by simp
  with a c show ?thesis by blast
qed

section \<open>The time period\<close>

text \<open>
  Claim C4, as the specification states it: \<open>extract_time_period\<close> returns an integer of
  at least 1 for every query. For "0 days" it returns 0.
\<close>

theorem zero_days_counterexample:
  "extract_time_period 4300 ''0 days'' = Inr 0"
  by code_simp

text \<open>
  Claim C4, amended: \<open>extract_time_period\<close> checks, in this order, "today" or "tomorrow"
  (1), "next week" or "this week" (7), "next month" (30), then the leftmost occurrence of
  digits, optional white space and one of day, week, month, and returns 7 when the query
  holds none of these. For that leftmost occurrence, whose digits are a whole run of digits
  and which is unique, the result is the number times 1, 7 or 30, or \<open>ValueError\<close> when the
  number has more digits than the interpreter's limit for \<open>int\<close> (if it has one). So the
  result is a natural number, it is 0 exactly when that number is 0, and \<open>ValueError\<close> is the
  only exception.
\<close>

theorem extract_time_period_cases:
  "(names_day (lower q) \<longrightarrow> extract_time_period n q = Inr 1) \<and>
   (\<not> names_day (lower q) \<and> names_week (lower q) \<longrightarrow> extract_time_period n q = Inr 7) \<and>
   (\<not> names_day (lower q) \<and> \<not> names_week (lower q) \<and> names_month (lower q) \<longrightarrow>
      extract_time_period n q = Inr 30) \<and>
   (\<not> names_day (lower q) \<and> \<not> names_week (lower q) \<and> \<not> names_month (lower q) \<and>
    (\<forall>dgs u. \<not> number_phrase (lower q) dgs u) \<longrightarrow>
      extract_time_period n q = Inr 7) \<and>
   (\<not> names_day (lower q) \<and> \<not> names_week (lower q) \<and> \<not> names_month (lower q) \<and>
    first_number_phrase (lower q) dgs u \<longrightarrow>
      extract_time_period n q =
        (if 0 < n \<and> n < length dgs then Inl ValueError
         else Inr (digits_value dgs * unit_days u))) \<and>
   ((\<exists>dgs u. number_phrase (lower q) dgs u) \<longrightarrow>
      (\<exists>dgs u. first_number_phrase (lower q) dgs u)) \<and>
   (first_number_phrase (lower q) dgs u \<and> first_number_phrase (lower q) dgs' u' \<longrightarrow>
      dgs = dgs' \<and> u = u') \<and>
   (first_number_phrase (lower q) dgs u \<longrightarrow>
      (\<exists>a rest c r. lower q = a @ dgs @ rest \<and> (a = [] \<or> \<not> in_class Digit (last a)) \<and>
         rest = c # r \<and> \<not> in_class Digit c)) \<and>
   (extract_time_period n q = Inr 0 \<longrightarrow>
      (\<exists>dgs u. first_number_phrase (lower q) dgs u \<and> digits_value dgs = 0)) \<and>
   (extract_time_period n q = Inl e \<longrightarrow>
      e = ValueError \<and> 0 < n \<and>
      (\<exists>dgs u. first_number_phrase (lower q) dgs u \<and> n < length dgs))"
proof (intro conjI impI)
  assume "names_day (lower q)"
  then show "extract_time_period n q = Inr 1" by (rule extract_time_period_day)
next
  assume "\<not> names_day (lower q) \<and> names_week (lower q)"
  then show "extract_time_period n q = Inr 7" by (simp add: extract_time_period_week)
next
  assume "\<not> names_day (lower q) \<and> \<not> names_week (lower q) \<and> names_month (lower q)"
  then show "extract_time_period n q = Inr 30" by (simp add: extract_time_period_month)
next
  assume "\<not> names_day (lower q) \<and> \<not> names_week (lower q) \<and> \<not> names_month (lower q) \<and>
    (\<forall>dgs u. \<not> number_phrase (lower q) dgs u)"
  then show "extract_time_period n q = Inr 7" by (simp add: extract_time_period_default)
next
  assume "\<not> names_day (lower q) \<and> \<not> names_week (lower q) \<and> \<not> names_month (lower q) \<and>
    first_number_phrase (lower q) dgs u"
  then show "extract_time_period n q =
        (if 0 < n \<and> n < length dgs then Inl ValueError
         else Inr (digits_value dgs * unit_days u))"
    using extract_time_period_first [of q dgs u n] by blast
next
  assume "\<exists>dgs u. number_phrase (lower q) dgs u"
  then show "\<exists>dgs u. first_number_phrase (lower q) dgs u"
    by (simp only: number_phrase_first)
next
  assume "first_number_phrase (lower q) dgs u \<and> first_number_phrase (lower q) dgs' u'"
  then show "dgs = dgs'" using first_number_phrase_unique by blast
next
  assume "first_number_phrase (lower q) dgs u \<and> first_number_phrase (lower q) dgs' u'"
  then show "u = u'" using first_number_phrase_unique by blast
next
  assume "first_number_phrase (lower q) dgs u"
  then show "\<exists>a rest c r. lower q = a @ dgs @ rest \<and> (a = [] \<or> \<not> in_class Digit (last a)) \<and>
         rest = c # r \<and> \<not> in_class Digit c"
    by (rule first_number_phrase_whole_run)
next
  assume "extract_time_period n q = Inr 0"
  then show "\<exists>dgs u. first_number_phrase (lower q) dgs u \<and> digits_value dgs = 0"
    by (rule extract_time_period_zero_first)
next
  assume e: "extract_time_period n q = Inl e"
  from extract_time_period_error_first [OF e] show "e = ValueError" by blast
next
  assume e: "extract_time_period n q = Inl e"
  from extract_time_period_error_first [OF e] show "0 < n" by blast
next
  assume e: "extract_time_period n q = Inl e"
  from extract_time_period_error_first [OF e]
  show "\<exists>dgs u. first_number_phrase (lower q) dgs u \<and> n < length dgs" by blast
qed

theorem extract_time_period_cases_witness:
  "names_day (lower ''What do we bake today?'') \<and>
   extract_time_period 4300 ''What do we bake today?'' = Inr 1 \<and>
   \<not> names_day (lower ''Good morning!'') \<and> \<not> names_week (lower ''Good morning!'') \<and>
   \<not> names_month (lower ''Good morning!'') \<and>
   (\<forall>dgs u. \<not> number_phrase (lower ''Good morning!'') dgs u) \<and>
   extract_time_period 4300 ''Good morning!'' = Inr 7 \<and>
   first_number_phrase (lower ''Plan 12 days, not 3 weeks'') ''12'' ''day'' \<and>
   extract_time_period 4300 ''Plan 12 days, not 3 weeks'' = Inr 12 \<and>
   extract_time_period 4300 ''0 days'' = Inr 0 \<and>
   (\<exists>dgs u. first_number_phrase (lower ''0 days'') dgs u \<and> digits_value dgs = 0) \<and>
   first_number_phrase (lower (replicate 4301 CHR ''1'' @ '' days''))
     (replicate 4301 CHR ''1'') ''day'' \<and>
   extract_time_period 4300 (replicate 4301 CHR ''1'' @ '' days'') = Inl ValueError"
proof -
  have h1: "names_day (lower ''What do we bake today?'')" by code_simp
  have c1: "extract_time_period 4300 ''What do we bake today?'' = Inr 1"
    by (rule extract_time_period_cases
        [where q = "''What do we bake today?''" and n = 4300, THEN conjunct1, THEN mp, OF h1])
  have h4: "\<not> names_day (lower ''Good morning!'')" "\<not> names_week (lower ''Good morning!'')"
    "\<not> names_month (lower ''Good morning!'')"
    by code_simp+
  have "re_search time_pattern (lower ''Good morning!'') = None" by code_simp
  then have n4: "\<forall>dgs u. \<not> number_phrase (lower ''Good morning!'') dgs u"
    using search_time_pattern [of "lower ''Good morning!''"] by blast
  have c4: "extract_time_period 4300 ''Good morning!'' = Inr 7"
    by (rule extract_time_period_cases
        [where q = "''Good morning!''" and n = 4300,
          THEN conjunct2, THEN conjunct2, THEN conjunct2, THEN conjunct1, THEN mp])
      (intro conjI h4 n4)
  have h5: "\<not> names_day (lower ''Plan 12 days, not 3 weeks'')"
    "\<not> names_week (lower ''Plan 12 days, not 3 weeks'')"
    "\<not> names_month (lower ''Plan 12 days, not 3 weeks'')"
    by code_simp+
  have "re_search time_pattern (lower ''Plan 12 days, not 3 weeks'') =
      Some [(2, ''day''), (1, ''12'')]" by code_simp
  then have f5: "first_number_phrase (lower ''Plan 12 days, not 3 weeks'') ''12'' ''day''"
    by (rule search_first_number_phrase)
  have v5: "(if 0 < (4300::nat) \<and> 4300 < length ''12'' then Inl ValueError
       else Inr (digits_value ''12'' * unit_days ''day'')) = (Inr 12 :: error + nat)"
    by code_simp
  have "extract_time_period 4300 ''Plan 12 days, not 3 weeks'' =
      (if 0 < (4300::nat) \<and> 4300 < length ''12'' then Inl ValueError
       else Inr (digits_value ''12'' * unit_days ''day''))"
    by (rule extract_time_period_cases
        [where q = "''Plan 12 days, not 3 weeks''" and n = 4300 and dgs = "''12''" and u = "''day''",
          THEN conjunct2, THEN conjunct2, THEN conjunct2, THEN conjunct2, THEN conjunct1, THEN mp])
      (intro conjI h5 f5)
  then have c5: "extract_time_period 4300 ''Plan 12 days, not 3 weeks'' = Inr 12"
    by (simp only: v5)
  have h6: "extract_time_period 4300 ''0 days'' = Inr 0" by code_simp
  have c6: "\<exists>dgs u. first_number_phrase (lower ''0 days'') dgs u \<and> digits_value dgs = 0"
    by (rule extract_time_period_cases
        [where q = "''0 days''" and n = 4300,
          THEN conjunct2, THEN conjunct2, THEN conjunct2, THEN conjunct2, THEN conjunct2,
          THEN conjunct2, THEN conjunct2, THEN conjunct2, THEN conjunct1, THEN mp, OF h6])
  have h7: "\<not> names_day (lower (replicate 4301 CHR ''1'' @ '' days''))"
    "\<not> names_week (lower (replicate 4301 CHR ''1'' @ '' days''))"
    "\<not> names_month (lower (replicate 4301 CHR ''1'' @ '' days''))"
    unfolding ones_lower by (rule ones_no_fixed_phrase)+
  have k: "0 < (4301::nat)" by simp
  have f7: "first_number_phrase (lower (replicate 4301 CHR ''1'' @ '' days''))
      (replicate 4301 CHR ''1'') ''day''"
    unfolding ones_lower by (rule ones_first_phrase [OF k])
  have v7: "0 < (4300::nat) \<and> 4300 < length (replicate 4301 CHR ''1'')"
    by (simp only: length_replicate) simp
  have "extract_time_period 4300 (replicate 4301 CHR ''1'' @ '' days'') =
      (if 0 < (4300::nat) \<and> 4300 < length (replicate 4301 CHR ''1'') then Inl ValueError
       else Inr (digits_value (replicate 4301 CHR ''1'') * unit_days ''day''))"
    by (rule extract_time_period_cases
        [where q = "replicate 4301 CHR ''1'' @ '' days''" and n = 4300
          and dgs = "replicate 4301 CHR ''1''" and u = "''day''",
          THEN conjunct2, THEN conjunct2, THEN conjunct2, THEN conjunct2, THEN conjunct1, THEN mp])
      (intro conjI h7 f7)
  then have c7: "extract_time_period 4300 (replicate 4301 CHR ''1'' @ '' days'') = Inl ValueError"
    by (rule trans) (rule if_P [OF v7])
  show ?thesis
    by (intro conjI h1 c1 h4 n4 c4 f5 c5 h6 c6 f7 c7)
qed

section \<open>Inventory\<close>

text \<open>
  Claim C5: when every point of the forecast that \<open>predict\<close> returns has
  \<open>yhat_lower \<le> yhat \<le> yhat_upper\<close> and the service level is in (0, 1],
  \<open>calculate_inventory_needs\<close> returns one row per point, in the same order and with the
  same dates, where the expected demand is the rounded \<open>yhat\<close>, the recommended production
  is the rounded \<open>yhat + (yhat_upper - yhat) * service_level\<close>, and the recommended
  production is at least the expected demand.
\<close>

theorem inventory_covers_demand:
  assumes "predict self product_name days_ahead = Inr forecast"
    and "\<forall>row \<in> set forecast. yhat_lower row \<le> yhat row \<and> yhat row \<le> yhat_upper row"
    and "0 < service_level" and "service_level \<le> 1"
  shows "\<exists>inventory.
     calculate_inventory_needs self product_name days_ahead service_level = Inr inventory \<and>
     length inventory = length forecast \<and>
     map inv_ds inventory = map ds forecast \<and>
     (\<forall>i < length forecast.
        expected_demand (inventory ! i) = rint (yhat (forecast ! i)) \<and>
        recommended_production (inventory ! i) =
          rint (yhat (forecast ! i) +
                (yhat_upper (forecast ! i) - yhat (forecast ! i)) * service_level) \<and>
        expected_demand (inventory ! i) \<le> recommended_production (inventory ! i))"
proof -
  let ?inv = "map (inventory_of service_level) forecast"
  have c: "calculate_inventory_needs self product_name days_ahead service_level = Inr ?inv"
    using assms(1) by (simp add: calculate_inventory_needs_def)
  have d: "map inv_ds ?inv = map ds forecast"
    by (simp add: inventory_of_def Let_def)
  have e: "expected_demand (?inv ! i) = rint (yhat (forecast ! i)) \<and>
        recommended_production (?inv ! i) =
          rint (yhat (forecast ! i) +
                (yhat_upper (forecast ! i) - yhat (forecast ! i)) * service_level) \<and>
        expected_demand (?inv ! i) \<le> recommended_production (?inv ! i)"
    if "i < length forecast" for i
  proof -
    from that have "forecast ! i \<in> set forecast" by simp
    with assms(2) have "yhat (forecast ! i) \<le> yhat_upper (forecast ! i)" by blast
    with inventory_of_covers [of "forecast ! i" service_level] assms(3) that
    show ?thesis by (simp add: inventory_of_def Let_def)
  qed
  have "length ?inv = length forecast" by simp
  with c d e show ?thesis by blast
qed

theorem inventory_covers_demand_witness:
  "predict example_forecaster ''Bagel'' 2 =
     Inr [\<lparr>ds = 1, yhat = 0, yhat_lower = - 10, yhat_upper = 4\<rparr>,
          \<lparr>ds = 2, yhat = 12, yhat_lower = 8, yhat_upper = 15\<rparr>] \<and>
   list_all (\<lambda>row. yhat_lower row \<le> yhat row \<and> yhat row \<le> yhat_upper row)
     [\<lparr>ds = 1, yhat = 0, yhat_lower = - 10, yhat_upper = 4\<rparr>,
      \<lparr>ds = 2, yhat = 12, yhat_lower = 8, yhat_upper = 15\<rparr>] \<and>
   (0::rat) < 95 / 100 \<and> (95 / 100 :: rat) \<le> 1 \<and>
   calculate_inventory_needs example_forecaster ''Bagel'' 2 (95 / 100) =
     Inr [\<lparr>inv_ds = 1, expected_demand = 0, recommended_production = 4\<rparr>,
          \<lparr>inv_ds = 2, expected_demand = 12, recommended_production = 15\<rparr>] \<and>
   (\<exists>inventory.
      calculate_inventory_needs example_forecaster ''Bagel'' 2 (95 / 100) = Inr inventory \<and>
      length inventory = 2 \<and>
      expected_demand (inventory ! 0) \<le> recommended_production (inventory ! 0) \<and>
      expected_demand (inventory ! 1) \<le> recommended_production (inventory ! 1))"
proof -
  let ?f = "[\<lparr>ds = 1, yhat = 0, yhat_lower = - 10, yhat_upper = 4\<rparr>,
             \<lparr>ds = 2, yhat = 12, yhat_lower = 8, yhat_upper = 15\<rparr>]"
  have p: "predict example_forecaster ''Bagel'' 2 = Inr ?f" by code_simp
  have b: "list_all (\<lambda>row. yhat_lower row \<le> yhat row \<and> yhat row \<le> yhat_upper row) ?f"
    by simp
  then have b': "\<forall>row \<in> set ?f. yhat_lower row \<le> yhat row \<and> yhat row \<le> yhat_upper row"
    by simp
  have s: "(0::rat) < 95 / 100" "(95 / 100 :: rat) \<le> 1" by simp_all
  have c: "calculate_inventory_needs example_forecaster ''Bagel'' 2 (95 / 100) =
     Inr [\<lparr>inv_ds = 1, expected_demand = 0, recommended_production = 4\<rparr>,
          \<lparr>inv_ds = 2, expected_demand = 12, recommended_production = 15\<rparr>]"
    by code_simp
  from inventory_covers_demand [OF p b' s] obtain inventory where
    i: "calculate_inventory_needs example_forecaster ''Bagel'' 2 (95 / 100) = Inr inventory"
      "length inventory = length ?f"
      "\<forall>i < length ?f. expected_demand (inventory ! i) \<le> recommended_production (inventory ! i)"
    by blast
  from i(3) have "expected_demand (inventory ! 0) \<le> recommended_production (inventory ! 0)"
    "expected_demand (inventory ! 1) \<le> recommended_production (inventory ! 1)"
    by simp_all
  with i(1,2) have "\<exists>inventory.
      calculate_inventory_needs example_forecaster ''Bagel'' 2 (95 / 100) = Inr inventory \<and>
      length inventory = 2 \<and>
      expected_demand (inventory ! 0) \<le> recommended_production (inventory ! 0) \<and>
      expected_demand (inventory ! 1) \<le> recommended_production (inventory ! 1)"
    by auto
  with p b s c show ?thesis by blast
qed

section \<open>Raw materials\<close>



text \<open>
  Claim C7: when the production totals of the products that have a recipe are 100
  croissants and 100 donuts, \<open>get_raw_materials\<close> returns eggs 27, flour 22, butter 13 and
  sugar 6 kilograms (sorted by quantity); the products without an entry in \<open>RECIPES\<close> may
  have any totals, they add nothing.
\<close>

theorem croissant_donut_materials:
  assumes "production_totals self days_ahead (map fst (models self)) = Inr totals"
    and "filter (\<lambda>(product_name, total). map_of RECIPES product_name \<noteq> None) totals =
           [(''Croissant'', 100), (''Donut'', 100)]"
  shows "get_raw_materials self days_ahead =
           Inr [(''eggs'', 27), (''flour'', 22), (''butter'', 13), (''sugar'', 6)]"
proof -
  have "materials_frame (aggregate_materials RECIPES [(''Croissant'', 100), (''Donut'', 100)]) =
     Inr [(''eggs'', 27), (''flour'', 22), (''butter'', 13), (''sugar'', 6)]"
    by code_simp
  moreover have "aggregate_materials RECIPES totals =
     aggregate_materials RECIPES [(''Croissant'', 100), (''Donut'', 100)]"
    using aggregate_filter [of RECIPES totals] assms(2) by simp
  ultimately show ?thesis
    using assms(1) by (simp add: get_raw_materials_def raw_materials_with_totals)
qed

theorem croissant_donut_materials_witness:
  "production_totals example_forecaster 2 (map fst (models example_forecaster)) =
     Inr [(''Croissant'', 100), (''Bagel'', 19), (''Donut'', 100)] \<and>
   filter (\<lambda>(product_name, total). map_of RECIPES product_name \<noteq> None)
     [(''Croissant'', 100), (''Bagel'', 19), (''Donut'', 100 :: int)] =
     [(''Croissant'', 100), (''Donut'', 100)] \<and>
   get_raw_materials example_forecaster 2 =
     Inr [(''eggs'', 27), (''flour'', 22), (''butter'', 13), (''sugar'', 6)]"
proof -
  have a: "production_totals example_forecaster 2 (map fst (models example_forecaster)) =
     Inr [(''Croissant'', 100), (''Bagel'', 19), (''Donut'', 100)]"
    by code_simp
  have b: "filter (\<lambda>(product_name, total). map_of RECIPES product_name \<noteq> None)
     [(''Croissant'', 100), (''Bagel'', 19), (''Donut'', 100 :: int)] =
     [(''Croissant'', 100), (''Donut'', 100)]"
    by code_simp
  from croissant_donut_materials [OF a b] a b show ?thesis by blast
qed

end
